theory Spec2Isabelle
  imports Complex_Main "HOL-Library.Word" "HOL-Library.Log_Nat"
begin

section \<open>JavaScript values\<close>

subsection \<open>Strings\<close>

text \<open>
  A JavaScript string is a sequence of 16-bit code units. The literals of \<^verbatim>\<open>app.js\<close> are
  ASCII; \<open>js\<close> embeds them.
\<close>

type_synonym jschar = "16 word"
type_synonym jsstring = "jschar list"

definition js :: "string \<Rightarrow> jsstring" where
  "js cs = map (\<lambda>c. of_nat (of_char c)) cs"

text \<open>Number-to-string conversion of a non-negative integer (decimal digits).\<close>

definition digit :: "nat \<Rightarrow> jschar" where
  "digit d = of_nat (48 + d)"

function show_nat :: "nat \<Rightarrow> jsstring" where
  "show_nat n = (if n < 10 then [digit n] else show_nat (n div 10) @ [digit (n mod 10)])"
  by pat_completeness auto
termination
  by (relation "measure id") auto

text \<open>
  Truthiness of a string-or-null value, as tested by \<^verbatim>\<open>!x\<close> and \<^verbatim>\<open>x && ...\<close>:
  \<^verbatim>\<open>null\<close>, \<^verbatim>\<open>undefined\<close> (both \<open>None\<close>) and the empty string are falsy.
\<close>

definition truthy :: "jsstring option \<Rightarrow> bool" where
  "truthy v = (case v of None \<Rightarrow> False | Some str \<Rightarrow> str \<noteq> [])"

text \<open>A string-or-null value inside a template literal.\<close>

definition template :: "jsstring option \<Rightarrow> jsstring" where
  "template v = (case v of None \<Rightarrow> js ''null'' | Some str \<Rightarrow> str)"

subsection \<open>Numbers\<close>

text \<open>
  A JavaScript Number is an IEEE 754 double. The numbers of this program are counts sent by
  the backend and what \<^verbatim>\<open>updateProgress\<close> computes from them, so no negative value
  occurs: a finite double is its rational value, \<open>PosInfinity\<close> is the result of an overflow
  or of dividing a positive number by zero, and \<open>NaN\<close> the result of \<^verbatim>\<open>0 / 0\<close>.
  \<open>to_double\<close> rounds a non-negative rational to the nearest double, ties to even:
  53 significant bits, least exponent \<open>-1074\<close>, overflow from \<open>2 ^ 1024\<close>.
\<close>

datatype jsnum = Finite rat | PosInfinity | NaN

definition pow2 :: "int \<Rightarrow> rat" where
  "pow2 e = (if 0 \<le> e then 2 ^ nat e else 1 / 2 ^ nat (- e))"

text \<open>The exponent of a positive rational: \<open>pow2 (ilog2 x) \<le> x < pow2 (ilog2 x + 1)\<close>.\<close>

definition ilog2 :: "rat \<Rightarrow> int" where
  "ilog2 x = (let (p, q) = quotient_of x; k = bitlen p - bitlen q
              in if pow2 k \<le> x then k else k - 1)"

definition round_half_even :: "rat \<Rightarrow> int" where
  "round_half_even y =
     (let n = \<lfloor>y\<rfloor>; r = y - of_int n
      in if r < 1 / 2 then n else if 1 / 2 < r then n + 1 else if even n then n else n + 1)"

definition to_double :: "rat \<Rightarrow> jsnum" where
  "to_double x =
     (if x = 0 then Finite 0
      else let e = max (ilog2 x - 52) (- 1074);
               v = of_int (round_half_even (x / pow2 e)) * pow2 e
           in if 2 ^ 1024 \<le> v then PosInfinity else Finite v)"

text \<open>
  \<^verbatim>\<open>a / b\<close> and \<^verbatim>\<open>x * k\<close> for integer-valued \<open>a\<close>, \<open>b\<close> and \<open>k\<close>: every integer up
  to \<open>2 ^ 53\<close> is a double, so a count is its own value, and each operation rounds its exact
  result once. Dividing by zero raises nothing in JavaScript: it gives \<^verbatim>\<open>Infinity\<close> or
  \<^verbatim>\<open>NaN\<close>.
\<close>

definition js_div :: "nat \<Rightarrow> nat \<Rightarrow> jsnum" where
  "js_div a b =
     (if b = 0 then (if a = 0 then NaN else PosInfinity)
      else to_double (of_nat a / of_nat b))"

definition js_mul :: "jsnum \<Rightarrow> nat \<Rightarrow> jsnum" where
  "js_mul x k =
     (case x of
        Finite v \<Rightarrow> to_double (v * of_nat k)
      | PosInfinity \<Rightarrow> (if k = 0 then NaN else PosInfinity)
      | NaN \<Rightarrow> NaN)"

section \<open>The application state\<close>

text \<open>The status snapshot returned by \<^verbatim>\<open>/scrape/status/{sessionId}\<close>.\<close>

record ProgressStatus =
  status :: jsstring
  total_urls :: nat
  completed :: nat
  success_count :: nat
  error_count :: nat

text \<open>A job posting; the fields \<^verbatim>\<open>searchJobs\<close> reads may be \<^verbatim>\<open>null\<close>.\<close>

record job =
  job_id :: jsstring
  job_title :: "jsstring option"
  company_name :: "jsstring option"
  location :: "jsstring option"

text \<open>
  What a \<^verbatim>\<open>fetch\<close> comes to: it rejects with an error message, or resolves to a response
  with an HTTP status code whose \<^verbatim>\<open>json()\<close> either rejects (\<open>Inl\<close> the message) or yields the
  decoded value.
\<close>

datatype 'a fetch_outcome = NetworkError jsstring | HttpResponse nat "jsstring + 'a"

text \<open>A request as issued: the URL, and the options (method and the URLs of the JSON body).\<close>

type_synonym request = "jsstring \<times> (jsstring \<times> jsstring list) option"

text \<open>
  The fields of \<^verbatim>\<open>JobScraperApp\<close> and the parts of the page and of the environment it
  writes: whether \<^verbatim>\<open>#progress-section\<close> and \<^verbatim>\<open>#empty-state\<close> carry the class
  \<^verbatim>\<open>hidden\<close>, the percentage in the width of \<^verbatim>\<open>#progress-bar\<close>, the two numbers of
  \<^verbatim>\<open>#progress-text\<close> and of \<^verbatim>\<open>#progress-details\<close>, the jobs whose cards fill
  \<^verbatim>\<open>#jobs-grid\<close>, the notifications shown (message and type), the labels logged with
  \<^verbatim>\<open>console.error\<close>, and the requests sent, each in order of occurrence.
\<close>

record app =
  apiBase :: jsstring
  currentJobs :: "job list"
  currentSession :: "jsstring option"
  progress_hidden :: bool
  progress_bar :: jsnum
  progress_text :: "nat \<times> nat"
  progress_details :: "nat \<times> nat"
  grid :: "job list"
  empty_hidden :: bool
  notifications :: "(jsstring \<times> jsstring) list"
  console_errors :: "jsstring list"
  requests :: "request list"

section \<open>Operations\<close>

definition showNotification :: "jsstring \<Rightarrow> jsstring \<Rightarrow> app \<Rightarrow> app" where
  "showNotification message type s = s\<lparr>notifications := notifications s @ [(message, type)]\<rparr>"

definition console_error :: "jsstring \<Rightarrow> app \<Rightarrow> app" where
  "console_error label s = s\<lparr>console_errors := console_errors s @ [label]\<rparr>"

definition showProgressSection :: "app \<Rightarrow> app" where
  "showProgressSection s = s\<lparr>progress_hidden := False\<rparr>"

definition hideProgressSection :: "app \<Rightarrow> app" where
  "hideProgressSection s = s\<lparr>progress_hidden := True\<rparr>"

subsection \<open>apiCall\<close>

text \<open>
  An awaited call has two halves: the request is sent, and later the outcome arrives.
  \<open>apiCall_settle\<close> is the second half: the value returned (\<open>Inr\<close>) or the message of the
  error thrown (\<open>Inl\<close>), after the notification of the \<^verbatim>\<open>catch\<close> block.
\<close>

definition fetch_send :: "jsstring \<Rightarrow> (jsstring \<times> jsstring list) option \<Rightarrow> app \<Rightarrow> app" where
  "fetch_send endpoint options s = s\<lparr>requests := requests s @ [(apiBase s @ endpoint, options)]\<rparr>"

definition response_ok :: "nat \<Rightarrow> bool" where
  "response_ok code = (200 \<le> code \<and> code \<le> 299)"

definition fetch_result :: "'a fetch_outcome \<Rightarrow> jsstring + 'a" where
  "fetch_result outcome =
     (case outcome of
        NetworkError m \<Rightarrow> Inl m
      | HttpResponse code decoded \<Rightarrow>
          if \<not> response_ok code then Inl (js ''HTTP error! status: '' @ show_nat code)
          else decoded)"

definition apiCall_settle :: "'a fetch_outcome \<Rightarrow> app \<Rightarrow> (jsstring + 'a) \<times> app" where
  "apiCall_settle outcome s =
     (case fetch_result outcome of
        Inl m \<Rightarrow>
          (Inl m, showNotification (js ''API call failed: '' @ m) (js ''error'')
                    (console_error (js ''API call failed:'') s))
      | Inr v \<Rightarrow> (Inr v, s))"

definition apiCall ::
  "jsstring \<Rightarrow> (jsstring \<times> jsstring list) option \<Rightarrow> 'a fetch_outcome \<Rightarrow> app
     \<Rightarrow> (jsstring + 'a) \<times> app" where
  "apiCall endpoint options outcome s = apiCall_settle outcome (fetch_send endpoint options s)"

subsection \<open>The job listing\<close>

definition displayJobs :: "job list \<Rightarrow> app \<Rightarrow> app" where
  "displayJobs jobs s =
     (if length jobs = 0 then s\<lparr>grid := [], empty_hidden := False\<rparr>
      else s\<lparr>empty_hidden := True, grid := jobs\<rparr>)"

definition loadJobs_send :: "app \<Rightarrow> app" where
  "loadJobs_send s = fetch_send (js ''/jobs?limit=50'') None s"

definition loadJobs_settle :: "job list fetch_outcome \<Rightarrow> app \<Rightarrow> app" where
  "loadJobs_settle outcome s =
     (case apiCall_settle outcome s of
        (Inr jobs, s1) \<Rightarrow> displayJobs jobs (s1\<lparr>currentJobs := jobs\<rparr>)
      | (Inl err, s1) \<Rightarrow> displayJobs [] (console_error (js ''Failed to load jobs:'') s1))"

definition loadJobs :: "job list fetch_outcome \<Rightarrow> app \<Rightarrow> app" where
  "loadJobs outcome s = loadJobs_settle outcome (loadJobs_send s)"

subsection \<open>The progress monitor\<close>

definition percentage :: "ProgressStatus \<Rightarrow> jsnum" where
  "percentage st =
     (if total_urls st > 0 then js_mul (js_div (completed st) (total_urls st)) 100
      else Finite 0)"

definition updateProgress :: "ProgressStatus \<Rightarrow> app \<Rightarrow> app" where
  "updateProgress st s =
     s\<lparr>progress_bar := percentage st,
       progress_text := (completed st, total_urls st),
       progress_details := (success_count st, error_count st)\<rparr>"

text \<open>
  One run of \<^verbatim>\<open>checkProgress\<close>: the status request is sent; when its outcome arrives the
  rest of the body runs. The first component of the result is the delay handed to
  \<^verbatim>\<open>setTimeout(checkProgress, _)\<close> when the run calls it, \<open>None\<close> when it does not.
  On \<^verbatim>\<open>completed\<close>, \<^verbatim>\<open>loadJobs()\<close> is not awaited: its request goes out, the success
  notification is shown, and the outcome of the jobs request is handled after that.
\<close>

definition checkProgress_send :: "app \<Rightarrow> app" where
  "checkProgress_send s = fetch_send (js ''/scrape/status/'' @ template (currentSession s)) None s"

definition checkProgress_settle ::
  "ProgressStatus fetch_outcome \<Rightarrow> job list fetch_outcome \<Rightarrow> app \<Rightarrow> nat option \<times> app" where
  "checkProgress_settle outcome jobs_outcome s =
     (case apiCall_settle outcome s of
        (Inr st, s1) \<Rightarrow>
          (let s2 = updateProgress st s1 in
           if status st = js ''running'' then (Some 2000, s2)
           else
             (let s3 = hideProgressSection s2 in
              if status st = js ''completed'' then
                (None, loadJobs_settle jobs_outcome
                         (showNotification (js ''Scraping completed successfully'') (js ''success'')
                            (loadJobs_send s3)))
              else (None, showNotification (js ''Scraping failed'') (js ''error'') s3)))
      | (Inl err, s1) \<Rightarrow>
          (None, hideProgressSection (console_error (js ''Failed to check progress:'') s1)))"

definition checkProgress ::
  "ProgressStatus fetch_outcome \<Rightarrow> job list fetch_outcome \<Rightarrow> app \<Rightarrow> nat option \<times> app" where
  "checkProgress outcome jobs_outcome s = checkProgress_settle outcome jobs_outcome (checkProgress_send s)"

text \<open>
  The poll chain: each timer that a run sets starts the next run, which meets the next
  outcome of the status endpoint. \<open>poll_chain\<close> starts where a status request has been sent
  and its outcome is awaited; with no outcome left the chain is still waiting.
\<close>

fun poll_chain :: "ProgressStatus fetch_outcome list \<Rightarrow> job list fetch_outcome \<Rightarrow> app \<Rightarrow> app" where
  "poll_chain [] jobs_outcome s = s"
| "poll_chain (outcome # outcomes) jobs_outcome s =
     (case checkProgress_settle outcome jobs_outcome s of
        (Some delay, s1) \<Rightarrow> poll_chain outcomes jobs_outcome (checkProgress_send s1)
      | (None, s1) \<Rightarrow> s1)"

definition monitorScrapingProgress ::
  "ProgressStatus fetch_outcome list \<Rightarrow> job list fetch_outcome \<Rightarrow> app \<Rightarrow> app" where
  "monitorScrapingProgress outcomes jobs_outcome s =
     (if \<not> truthy (currentSession s) then s
      else poll_chain outcomes jobs_outcome (checkProgress_send s))"

subsection \<open>Starting a scrape\<close>

text \<open>
  \<^verbatim>\<open>split('\n')\<close>, \<^verbatim>\<open>trim()\<close> and the white space and line terminators that
  \<^verbatim>\<open>trim\<close> removes: TAB, LF, VT, FF, CR, space, NBSP, U+1680, U+2000 to U+200A, U+2028,
  U+2029, U+202F, U+205F, U+3000 and U+FEFF.
\<close>

fun split_on :: "'a \<Rightarrow> 'a list \<Rightarrow> 'a list list" where
  "split_on sep [] = [[]]"
| "split_on sep (c # cs) =
     (if c = sep then [] # split_on sep cs
      else (case split_on sep cs of
              piece # pieces \<Rightarrow> (c # piece) # pieces
            | [] \<Rightarrow> [[c]]))"

definition is_whitespace :: "jschar \<Rightarrow> bool" where
  "is_whitespace c =
     (c = 0x09 \<or> c = 0x0A \<or> c = 0x0B \<or> c = 0x0C \<or> c = 0x0D \<or> c = 0x20 \<or> c = 0xA0 \<or>
      c = 0x1680 \<or> (0x2000 \<le> c \<and> c \<le> 0x200A) \<or> c = 0x2028 \<or> c = 0x2029 \<or>
      c = 0x202F \<or> c = 0x205F \<or> c = 0x3000 \<or> c = 0xFEFF)"

definition trim :: "jsstring \<Rightarrow> jsstring" where
  "trim str = rev (dropWhile is_whitespace (rev (dropWhile is_whitespace str)))"

text \<open>The argument is the value of the textarea \<^verbatim>\<open>#job-urls\<close>.\<close>

definition getJobUrls :: "jsstring \<Rightarrow> jsstring list" where
  "getJobUrls text = filter (\<lambda>url. length url > 0) (map trim (split_on 0x0A text))"

text \<open>
  \<^verbatim>\<open>startScraping\<close>, given the textarea, the outcome of the \<^verbatim>\<open>/scrape\<close> request (the
  decoded value is the \<^verbatim>\<open>session_id\<close> of the response) and the outcomes the monitor meets.
  \<^verbatim>\<open>monitorScrapingProgress()\<close> is not awaited: it sends its first status request, the
  notification follows, and the chain goes on from there.
\<close>

definition startScraping ::
  "jsstring \<Rightarrow> jsstring option fetch_outcome \<Rightarrow> ProgressStatus fetch_outcome list
     \<Rightarrow> job list fetch_outcome \<Rightarrow> app \<Rightarrow> app" where
  "startScraping text scrape_outcome outcomes jobs_outcome s =
     (let urls = getJobUrls text in
      if length urls = 0 then
        showNotification (js ''Please enter at least one job URL'') (js ''warning'') s
      else
        (case apiCall (js ''/scrape'') (Some (js ''POST'', urls)) scrape_outcome s of
           (Inr session_id, s1) \<Rightarrow>
             (let s2 = showProgressSection (s1\<lparr>currentSession := session_id\<rparr>);
                  started = js ''Started scraping '' @ show_nat (length urls) @ js '' job postings''
              in if \<not> truthy (currentSession s2) then
                   showNotification started (js ''success'') s2
                 else
                   poll_chain outcomes jobs_outcome
                     (showNotification started (js ''success'') (checkProgress_send s2)))
         | (Inl err, s1) \<Rightarrow>
             showNotification (js ''Failed to start scraping'') (js ''error'') s1))"

subsection \<open>Searching the stored jobs\<close>

text \<open>\<^verbatim>\<open>String.prototype.includes\<close>: the second string occurs in the first.\<close>

fun startsWith :: "'a list \<Rightarrow> 'a list \<Rightarrow> bool" where
  "startsWith str [] = True"
| "startsWith [] (q # qs) = False"
| "startsWith (c # cs) (q # qs) = (c = q \<and> startsWith cs qs)"

fun str_includes :: "'a list \<Rightarrow> 'a list \<Rightarrow> bool" where
  "str_includes [] q = (q = [])"
| "str_includes (c # cs) q = (startsWith (c # cs) q \<or> str_includes cs q)"

text \<open>
  Calling \<^verbatim>\<open>toLowerCase\<close> on \<^verbatim>\<open>null\<close> throws a TypeError, which nothing in
  \<^verbatim>\<open>searchJobs\<close> catches. The callback of \<^verbatim>\<open>filter\<close> evaluates its disjunction from the
  left and stops at the first true operand. \<^verbatim>\<open>String.prototype.toLowerCase\<close> is the
  first argument.
\<close>

datatype js_error = TypeError

definition job_matches :: "(jsstring \<Rightarrow> jsstring) \<Rightarrow> jsstring \<Rightarrow> job \<Rightarrow> js_error + bool" where
  "job_matches toLowerCase query j =
     (case job_title j of
        None \<Rightarrow> Inl TypeError
      | Some title \<Rightarrow>
          if str_includes (toLowerCase title) (toLowerCase query) then Inr True
          else
            (case company_name j of
               None \<Rightarrow> Inl TypeError
             | Some company \<Rightarrow>
                 if str_includes (toLowerCase company) (toLowerCase query) then Inr True
                 else
                   (case location j of
                      None \<Rightarrow> Inr False
                    | Some loc \<Rightarrow>
                        Inr (loc \<noteq> [] \<and> str_includes (toLowerCase loc) (toLowerCase query)))))"

fun filter_jobs :: "(jsstring \<Rightarrow> jsstring) \<Rightarrow> jsstring \<Rightarrow> job list \<Rightarrow> js_error + job list" where
  "filter_jobs toLowerCase query [] = Inr []"
| "filter_jobs toLowerCase query (j # jobs) =
     (case job_matches toLowerCase query j of
        Inl e \<Rightarrow> Inl e
      | Inr keep \<Rightarrow>
          (case filter_jobs toLowerCase query jobs of
             Inl e \<Rightarrow> Inl e
           | Inr kept \<Rightarrow> Inr (if keep then j # kept else kept)))"

definition searchJobs :: "(jsstring \<Rightarrow> jsstring) \<Rightarrow> jsstring \<Rightarrow> app \<Rightarrow> js_error + app" where
  "searchJobs toLowerCase query s =
     (if trim query = [] then Inr (displayJobs (currentJobs s) s)
      else
        (case filter_jobs toLowerCase query (currentJobs s) of
           Inl e \<Rightarrow> Inl e
         | Inr filtered \<Rightarrow> Inr (displayJobs filtered s)))"

section \<open>Notions used in the statements\<close>

text \<open>
  The fields as the constructor sets them, on a page that shows nothing yet; and the same
  with a session stored.
\<close>

definition initial_app :: app where
  "initial_app =
     \<lparr>apiBase = js ''/api'', currentJobs = [], currentSession = None,
      progress_hidden = True, progress_bar = Finite 0, progress_text = (0, 0),
      progress_details = (0, 0), grid = [], empty_hidden = True,
      notifications = [], console_errors = [], requests = []\<rparr>"

definition active_app :: app where
  "active_app = initial_app\<lparr>currentSession := Some (js ''s1'')\<rparr>"

text \<open>The status read by a run, when its fetch succeeds.\<close>

definition fetched_status :: "ProgressStatus fetch_outcome \<Rightarrow> jsstring option" where
  "fetched_status outcome =
     (case fetch_result outcome of Inl m \<Rightarrow> None | Inr st \<Rightarrow> Some (status st))"

text \<open>The request of a poll, the request of a refresh, and the number of polls sent.\<close>

definition status_request :: "app \<Rightarrow> request" where
  "status_request s = (apiBase s @ js ''/scrape/status/'' @ template (currentSession s), None)"

definition jobs_request :: "app \<Rightarrow> request" where
  "jobs_request s = (apiBase s @ js ''/jobs?limit=50'', None)"

definition polls :: "app \<Rightarrow> nat" where
  "polls s = length (filter (\<lambda>r. r = status_request s) (requests s))"

text \<open>
  The state in which a chain awaits the next outcome, after runs that each met a
  successful fetch.
\<close>

fun running_polls :: "ProgressStatus fetch_outcome list \<Rightarrow> app \<Rightarrow> app" where
  "running_polls [] s = s"
| "running_polls (outcome # outcomes) s =
     (case fetch_result outcome of
        Inr st \<Rightarrow> running_polls outcomes (checkProgress_send (updateProgress st s))
      | Inl m \<Rightarrow> s)"

text \<open>A successful response, and a status snapshot of a session with four URLs.\<close>

definition resolved :: "'a \<Rightarrow> 'a fetch_outcome" where
  "resolved v = HttpResponse 200 (Inr v)"

definition snapshot :: "jsstring \<Rightarrow> ProgressStatus" where
  "snapshot x = \<lparr>status = x, total_urls = 4, completed = 2, success_count = 2, error_count = 0\<rparr>"

text \<open>A status snapshot with the given counts.\<close>

definition counts :: "nat \<Rightarrow> nat \<Rightarrow> ProgressStatus" where
  "counts c t = \<lparr>status = js ''running'', total_urls = t, completed = c, success_count = c,
     error_count = 0\<rparr>"

text \<open>
  \<^verbatim>\<open>toLowerCase\<close> on ASCII strings, for the examples; the statements about
  \<^verbatim>\<open>searchJobs\<close> hold for any lower-casing function that maps the empty string, and
  only it, to the empty string.
\<close>

definition ascii_lower :: "jsstring \<Rightarrow> jsstring" where
  "ascii_lower str = map (\<lambda>c. if 0x41 \<le> c \<and> c \<le> 0x5A then c + 0x20 else c) str"

text \<open>
  The claim's words: a field that is not \<^verbatim>\<open>null\<close> contains the query
  case-insensitively, and a job matches when its title, its company name or its location
  does.
\<close>

definition contains_ci :: "(jsstring \<Rightarrow> jsstring) \<Rightarrow> jsstring option \<Rightarrow> jsstring \<Rightarrow> bool" where
  "contains_ci toLowerCase field query =
     (case field of None \<Rightarrow> False
      | Some str \<Rightarrow> str_includes (toLowerCase str) (toLowerCase query))"

definition matches_query :: "(jsstring \<Rightarrow> jsstring) \<Rightarrow> jsstring \<Rightarrow> job \<Rightarrow> bool" where
  "matches_query toLowerCase query j =
     (contains_ci toLowerCase (job_title j) query \<or>
      contains_ci toLowerCase (company_name j) query \<or>
      contains_ci toLowerCase (location j) query)"

text \<open>Three stored jobs.\<close>

definition engineer_job :: job where
  "engineer_job = \<lparr>job_id = js ''1'', job_title = Some (js ''Software Engineer''),
     company_name = Some (js ''Acme''), location = None\<rparr>"

definition designer_job :: job where
  "designer_job = \<lparr>job_id = js ''2'', job_title = Some (js ''Designer''),
     company_name = Some (js ''Globex''), location = Some (js ''Berlin'')\<rparr>"

definition analyst_job :: job where
  "analyst_job = \<lparr>job_id = js ''3'', job_title = Some (js ''Analyst''),
     company_name = Some (js ''Initech''), location = Some []\<rparr>"

definition listing_app :: app where
  "listing_app = initial_app\<lparr>currentJobs := [engineer_job, designer_job, analyst_job]\<rparr>"

section \<open>Properties of the operations\<close>

subsection \<open>What each operation leaves unchanged\<close>

lemma updateProgress_frame [simp]:
  "requests (updateProgress st s) = requests s"
  "apiBase (updateProgress st s) = apiBase s"
  "currentSession (updateProgress st s) = currentSession s"
  "notifications (updateProgress st s) = notifications s"
  "console_errors (updateProgress st s) = console_errors s"
  "currentJobs (updateProgress st s) = currentJobs s"
  "grid (updateProgress st s) = grid s"
  "empty_hidden (updateProgress st s) = empty_hidden s"
  "progress_hidden (updateProgress st s) = progress_hidden s"
  by (simp_all add: updateProgress_def)

lemma checkProgress_send_frame [simp]:
  "requests (checkProgress_send s) = requests s @ [status_request s]"
  "apiBase (checkProgress_send s) = apiBase s"
  "currentSession (checkProgress_send s) = currentSession s"
  "notifications (checkProgress_send s) = notifications s"
  "console_errors (checkProgress_send s) = console_errors s"
  "currentJobs (checkProgress_send s) = currentJobs s"
  "grid (checkProgress_send s) = grid s"
  "empty_hidden (checkProgress_send s) = empty_hidden s"
  "progress_hidden (checkProgress_send s) = progress_hidden s"
  "progress_bar (checkProgress_send s) = progress_bar s"
  "progress_text (checkProgress_send s) = progress_text s"
  "progress_details (checkProgress_send s) = progress_details s"
  by (simp_all add: checkProgress_send_def fetch_send_def status_request_def)

lemma status_request_frame [simp]:
  "status_request (updateProgress st s) = status_request s"
  "status_request (checkProgress_send s) = status_request s"
  by (simp_all add: status_request_def)

lemma polls_append:
  "status_request s1 = status_request s \<Longrightarrow> requests s1 = requests s @ rs \<Longrightarrow>
   polls s1 = polls s + length (filter (\<lambda>r. r = status_request s) rs)"
  by (simp add: polls_def)

lemma jobs_request_neq [simp]: "jobs_request s \<noteq> status_request s"
  by (simp add: jobs_request_def status_request_def js_def)

lemma loadJobs_settle_frame [simp]:
  "requests (loadJobs_settle jo s) = requests s"
  "apiBase (loadJobs_settle jo s) = apiBase s"
  "currentSession (loadJobs_settle jo s) = currentSession s"
  "progress_hidden (loadJobs_settle jo s) = progress_hidden s"
  by (simp_all add: loadJobs_settle_def apiCall_settle_def displayJobs_def showNotification_def
        console_error_def split: sum.splits)

lemma loadJobs_settle_notifications:
  "notifications (loadJobs_settle jo s) =
     notifications s @
       (case fetch_result jo of Inl m \<Rightarrow> [(js ''API call failed: '' @ m, js ''error'')]
        | Inr jobs \<Rightarrow> [])"
  by (simp add: loadJobs_settle_def apiCall_settle_def displayJobs_def showNotification_def
        console_error_def split: sum.splits)

lemma loadJobs_settle_jobs:
  "fetch_result jo = Inr jobs \<Longrightarrow>
   currentJobs (loadJobs_settle jo s) = jobs \<and> grid (loadJobs_settle jo s) = jobs"
  by (simp add: loadJobs_settle_def apiCall_settle_def displayJobs_def)

lemma simple_frames [simp]:
  "requests (showNotification a b s) = requests s"
  "apiBase (showNotification a b s) = apiBase s"
  "currentSession (showNotification a b s) = currentSession s"
  "progress_hidden (showNotification a b s) = progress_hidden s"
  "currentJobs (showNotification a b s) = currentJobs s"
  "grid (showNotification a b s) = grid s"
  "notifications (showNotification a b s) = notifications s @ [(a, b)]"
  "requests (console_error l s) = requests s"
  "apiBase (console_error l s) = apiBase s"
  "currentSession (console_error l s) = currentSession s"
  "progress_hidden (console_error l s) = progress_hidden s"
  "currentJobs (console_error l s) = currentJobs s"
  "grid (console_error l s) = grid s"
  "notifications (console_error l s) = notifications s"
  "requests (hideProgressSection s) = requests s"
  "apiBase (hideProgressSection s) = apiBase s"
  "currentSession (hideProgressSection s) = currentSession s"
  "progress_hidden (hideProgressSection s)"
  "currentJobs (hideProgressSection s) = currentJobs s"
  "grid (hideProgressSection s) = grid s"
  "notifications (hideProgressSection s) = notifications s"
  "requests (loadJobs_send s) = requests s @ [jobs_request s]"
  "apiBase (loadJobs_send s) = apiBase s"
  "currentSession (loadJobs_send s) = currentSession s"
  "progress_hidden (loadJobs_send s) = progress_hidden s"
  "notifications (loadJobs_send s) = notifications s"
  by (simp_all add: showNotification_def console_error_def hideProgressSection_def
        loadJobs_send_def fetch_send_def jobs_request_def)

lemma request_frames [simp]:
  "status_request (showNotification a b s) = status_request s"
  "status_request (console_error l s) = status_request s"
  "status_request (hideProgressSection s) = status_request s"
  "status_request (loadJobs_send s) = status_request s"
  "status_request (loadJobs_settle jo s) = status_request s"
  "jobs_request (updateProgress st s) = jobs_request s"
  "jobs_request (checkProgress_send s) = jobs_request s"
  "jobs_request (hideProgressSection s) = jobs_request s"
  by (simp_all add: status_request_def jobs_request_def)

subsection \<open>One run of checkProgress, by the kind of its outcome\<close>

lemma settle_running:
  "fetched_status outcome = Some (js ''running'') \<Longrightarrow>
   \<exists>st. fetch_result outcome = Inr st \<and> checkProgress_settle outcome jo s = (Some 2000, updateProgress st s)"
  by (auto simp: fetched_status_def checkProgress_settle_def apiCall_settle_def split: sum.splits)

lemma settle_not_running:
  "fetched_status outcome \<noteq> Some (js ''running'') \<Longrightarrow> fst (checkProgress_settle outcome jo s) = None"
  by (auto simp: fetched_status_def checkProgress_settle_def apiCall_settle_def Let_def split: sum.splits)

lemma settle_completed:
  "fetched_status outcome = Some (js ''completed'') \<Longrightarrow>
   \<exists>st. fetch_result outcome = Inr st \<and>
     checkProgress_settle outcome jo s =
       (None, loadJobs_settle jo
                (showNotification (js ''Scraping completed successfully'') (js ''success'')
                   (loadJobs_send (hideProgressSection (updateProgress st s)))))"
  by (auto simp: fetched_status_def checkProgress_settle_def apiCall_settle_def js_def
           split: sum.splits)

lemma settle_failed:
  "fetch_result outcome = Inr st \<Longrightarrow> status st \<noteq> js ''running'' \<Longrightarrow>
   status st \<noteq> js ''completed'' \<Longrightarrow>
   checkProgress_settle outcome jo s =
     (None, showNotification (js ''Scraping failed'') (js ''error'')
              (hideProgressSection (updateProgress st s)))"
  by (simp add: checkProgress_settle_def apiCall_settle_def)

lemma settle_error:
  "fetch_result outcome = Inl m \<Longrightarrow>
   checkProgress_settle outcome jo s =
     (None, hideProgressSection (console_error (js ''Failed to check progress:'')
              (showNotification (js ''API call failed: '' @ m) (js ''error'')
                 (console_error (js ''API call failed:'') s))))"
  by (simp add: checkProgress_settle_def apiCall_settle_def)

text \<open>What the last run of a chain leaves, by the kind of its outcome.\<close>

lemma terminal_requests:
  assumes "fetched_status outcome \<noteq> Some (js ''running'')"
  shows "\<exists>s1. checkProgress_settle outcome jo s = (None, s1) \<and>
           status_request s1 = status_request s \<and>
           requests s1 = requests s @
             (if fetched_status outcome = Some (js ''completed'') then [jobs_request s] else [])"
proof (cases "fetch_result outcome")
  case (Inl m)
  then have "fetched_status outcome = None" by (simp add: fetched_status_def)
  with settle_error [OF Inl] show ?thesis by simp
next
  case (Inr st)
  then have fs: "fetched_status outcome = Some (status st)" by (simp add: fetched_status_def)
  show ?thesis
  proof (cases "status st = js ''completed''")
    case True
    with fs have "fetched_status outcome = Some (js ''completed'')" by simp
    from settle_completed [OF this, of jo s] this show ?thesis by auto
  next
    case False
    from assms fs have "status st \<noteq> js ''running''" by simp
    from settle_failed [OF Inr this False] False fs show ?thesis by simp
  qed
qed

subsection \<open>The poll chain\<close>

lemma poll_chain_running:
  "\<forall>outcome \<in> set pre. fetched_status outcome = Some (js ''running'') \<Longrightarrow>
   poll_chain (pre @ rest) jo s = poll_chain rest jo (running_polls pre s)"
proof (induction pre arbitrary: s)
  case Nil
  show ?case by simp
next
  case (Cons outcome pre)
  from Cons.prems have r: "fetched_status outcome = Some (js ''running'')" by simp
  from settle_running [OF r] obtain st where
    st: "fetch_result outcome = Inr st"
        "checkProgress_settle outcome jo s = (Some 2000, updateProgress st s)"
    by blast
  from Cons.prems have "\<forall>outcome \<in> set pre. fetched_status outcome = Some (js ''running'')"
    by simp
  from Cons.IH [OF this] show ?case
    by (simp add: st)
qed

lemma running_polls_frame:
  "\<forall>outcome \<in> set pre. fetched_status outcome = Some (js ''running'') \<Longrightarrow>
   requests (running_polls pre s) = requests s @ replicate (length pre) (status_request s) \<and>
   status_request (running_polls pre s) = status_request s \<and>
   notifications (running_polls pre s) = notifications s \<and>
   console_errors (running_polls pre s) = console_errors s \<and>
   currentJobs (running_polls pre s) = currentJobs s \<and>
   grid (running_polls pre s) = grid s \<and>
   empty_hidden (running_polls pre s) = empty_hidden s \<and>
   progress_hidden (running_polls pre s) = progress_hidden s \<and>
   currentSession (running_polls pre s) = currentSession s \<and>
   apiBase (running_polls pre s) = apiBase s"
proof (induction pre arbitrary: s)
  case Nil
  show ?case by simp
next
  case (Cons outcome pre)
  from Cons.prems have r: "fetched_status outcome = Some (js ''running'')" by simp
  then obtain st where st: "fetch_result outcome = Inr st"
    by (auto simp: fetched_status_def split: sum.splits)
  from Cons.prems have "\<forall>outcome \<in> set pre. fetched_status outcome = Some (js ''running'')"
    by simp
  from Cons.IH [OF this, of "checkProgress_send (updateProgress st s)"] show ?case
    by (simp add: st replicate_app_Cons_same)
qed


declare running_polls.simps [simp del]

lemma monitor_chain:
  assumes "truthy (currentSession s)"
    and "\<forall>earlier \<in> set pre. fetched_status earlier = Some (js ''running'')"
    and "fst (checkProgress_settle outcome jo (running_polls pre (checkProgress_send s))) = None"
  shows "monitorScrapingProgress (pre @ outcome # post) jo s =
           snd (checkProgress_settle outcome jo (running_polls pre (checkProgress_send s)))"
  using assms(1,3)
  by (cases "checkProgress_settle outcome jo (running_polls pre (checkProgress_send s))")
     (simp add: monitorScrapingProgress_def poll_chain_running [OF assms(2)])

subsection \<open>The example outcomes\<close>

lemma fetched_status_resolved [simp]: "fetched_status (resolved (snapshot x)) = Some x"
  by (simp add: fetched_status_def fetch_result_def resolved_def response_ok_def snapshot_def)

lemma fetch_result_resolved [simp]: "fetch_result (resolved v) = Inr v"
  by (simp add: fetch_result_def resolved_def response_ok_def)

lemma truthy_active [simp]: "truthy (currentSession active_app)"
  by (simp add: active_app_def truthy_def js_def)

lemma literals_differ [simp]:
  "js ''failed'' \<noteq> js ''running''" "js ''failed'' \<noteq> js ''completed''"
  "js ''completed'' \<noteq> js ''running''"
  by (simp_all add: js_def)

subsection \<open>Rounding to a double\<close>

lemma pow2_powi: "pow2 e = 2 powi e"
proof (cases "0 \<le> e")
  case True
  then show ?thesis by (simp only: pow2_def power_int_def if_True)
next
  case False
  have "inverse (2::rat) ^ nat (- e) = 1 / 2 ^ nat (- e)"
    by (simp only: inverse_eq_divide power_one_over)
  with False show ?thesis by (simp only: pow2_def power_int_def if_False)
qed

lemma pow2_pos: "0 < pow2 e"
  by (simp add: pow2_powi)

lemma pow2_add: "pow2 (a + b) = pow2 a * pow2 b"
  by (simp add: pow2_powi power_int_add)

lemma pow2_mono: "a \<le> b \<Longrightarrow> pow2 a \<le> pow2 b"
  by (simp add: pow2_powi power_int_increasing)

lemma pow2_nat: "pow2 (int n) = 2 ^ n"
  by (simp add: pow2_def)

lemma ilog2_bounds:
  assumes "0 < x"
  shows "pow2 (ilog2 x) \<le> x" and "x < pow2 (ilog2 x + 1)"
proof -
  obtain p q where pq: "quotient_of x = (p, q)" by (cases "quotient_of x")
  then have q: "0 < q" by (rule quotient_of_denom_pos)
  from pq have x: "x = of_int p / of_int q" by (rule quotient_of_div)
  with assms q have p: "0 < p" by (simp add: zero_less_divide_iff)
  let ?bp = "bitlen p" and ?bq = "bitlen q"
  from bitlen_bounds [OF p] have bp: "2 ^ nat (?bp - 1) \<le> p" "p < 2 ^ nat ?bp" by simp_all
  from bitlen_bounds [OF q] have bq: "2 ^ nat (?bq - 1) \<le> q" "q < 2 ^ nat ?bq" by simp_all
  from p have bp1: "1 \<le> ?bp" by (simp add: bitlen_alt_def)
  from q have bq1: "1 \<le> ?bq" by (simp add: bitlen_alt_def)
  have P1: "pow2 (?bp - 1) \<le> of_int p"
  proof -
    from bp(1) have "(of_int (2 ^ nat (?bp - 1)) :: rat) \<le> of_int p" by (simp only: of_int_le_iff)
    moreover have "pow2 (?bp - 1) = 2 ^ nat (?bp - 1)" using bp1 by (simp add: pow2_def)
    ultimately show ?thesis by simp
  qed
  have P2: "of_int p < pow2 ?bp"
  proof -
    from bp(2) have "(of_int p :: rat) < of_int (2 ^ nat ?bp)" by (simp only: of_int_less_iff)
    moreover have "pow2 ?bp = 2 ^ nat ?bp" using bp1 by (simp add: pow2_def)
    ultimately show ?thesis by simp
  qed
  have Q1: "pow2 (?bq - 1) \<le> of_int q"
  proof -
    from bq(1) have "(of_int (2 ^ nat (?bq - 1)) :: rat) \<le> of_int q" by (simp only: of_int_le_iff)
    moreover have "pow2 (?bq - 1) = 2 ^ nat (?bq - 1)" using bq1 by (simp add: pow2_def)
    ultimately show ?thesis by simp
  qed
  have Q2: "of_int q < pow2 ?bq"
  proof -
    from bq(2) have "(of_int q :: rat) < of_int (2 ^ nat ?bq)" by (simp only: of_int_less_iff)
    moreover have "pow2 ?bq = 2 ^ nat ?bq" using bq1 by (simp add: pow2_def)
    ultimately show ?thesis by simp
  qed
  have qpos: "(0::rat) < of_int q" using q by simp
  have lower: "pow2 (?bp - ?bq - 1) \<le> x"
  proof -
    have "pow2 (?bp - ?bq - 1) * of_int q \<le> pow2 (?bp - ?bq - 1) * pow2 ?bq"
      by (intro mult_left_mono less_imp_le [OF Q2] less_imp_le [OF pow2_pos])
    also have "\<dots> = pow2 (?bp - 1)"
      by (simp add: pow2_add [symmetric])
    also have "\<dots> \<le> of_int p" by (rule P1)
    finally show ?thesis using qpos by (simp add: x pos_le_divide_eq)
  qed
  have upper: "x < pow2 (?bp - ?bq + 1)"
  proof -
    have "of_int p < pow2 ?bp" by (rule P2)
    also have "\<dots> = pow2 (?bp - ?bq + 1) * pow2 (?bq - 1)"
      by (simp add: pow2_add [symmetric])
    also have "\<dots> \<le> pow2 (?bp - ?bq + 1) * of_int q"
      by (intro mult_left_mono Q1 less_imp_le [OF pow2_pos])
    finally show ?thesis using qpos by (simp add: x pos_divide_less_eq)
  qed
  have il: "ilog2 x = (if pow2 (?bp - ?bq) \<le> x then ?bp - ?bq else ?bp - ?bq - 1)"
    by (simp add: ilog2_def pq Let_def)
  show "pow2 (ilog2 x) \<le> x"
    using lower by (simp add: il)
  show "x < pow2 (ilog2 x + 1)"
    using upper by (simp add: il not_le)
qed

lemma round_half_even_error: "\<bar>of_int (round_half_even y) - y\<bar> \<le> 1 / 2"
proof -
  have "of_int \<lfloor>y\<rfloor> \<le> y" "y < of_int \<lfloor>y\<rfloor> + 1" by linarith+
  then show ?thesis
    by (auto simp: round_half_even_def Let_def abs_le_iff)
qed

lemma pow2_1 [simp]: "pow2 1 = 2"
  by (simp add: pow2_def)

lemma pow2_52: "pow2 52 = 2 ^ 52"
  using pow2_nat [of 52] by simp

lemma pow2_1024: "pow2 1024 = 2 ^ 1024"
  using pow2_nat [of 1024] by simp

lemma ilog2_unique:
  assumes "pow2 k \<le> x" and "x < pow2 (k + 1)"
  shows "ilog2 x = k"
proof -
  from assms(1) have pos: "0 < x" using pow2_pos [of k] by linarith
  note il = ilog2_bounds [OF pos]
  have "\<not> ilog2 x < k"
  proof
    assume "ilog2 x < k"
    then have "ilog2 x + 1 \<le> k" by simp
    from pow2_mono [OF this] il(2) assms(1) show False by linarith
  qed
  moreover have "\<not> k < ilog2 x"
  proof
    assume "k < ilog2 x"
    then have "k + 1 \<le> ilog2 x" by simp
    from pow2_mono [OF this] il(1) assms(2) show False by linarith
  qed
  ultimately show ?thesis by simp
qed

text \<open>
  On the normal range no overflow and no underflow occur: the result is the nearest multiple
  of the unit in the last place, within half a unit of the argument.
\<close>

lemma to_double_normal:
  assumes lo: "pow2 (- 1022) \<le> x" and hi: "x < pow2 1023"
  defines "e \<equiv> ilog2 x - 52"
  defines "v \<equiv> of_int (round_half_even (x / pow2 e)) * pow2 e"
  shows "to_double x = Finite v" and "\<bar>v - x\<bar> \<le> x / 2 ^ 53"
proof -
  from lo have pos: "0 < x" using pow2_pos [of "- 1022"] by linarith
  note il = ilog2_bounds [OF pos]
  have ge: "- 1022 \<le> ilog2 x"
  proof (rule ccontr)
    assume "\<not> - 1022 \<le> ilog2 x"
    then have "ilog2 x + 1 \<le> - 1022" by simp
    from pow2_mono [OF this] il(2) lo show False by linarith
  qed
  have e: "max (ilog2 x - 52) (- 1074) = e" using ge by (simp add: e_def)
  have ne: "pow2 e \<noteq> 0" using pow2_pos [of e] by simp
  have ge0: "0 \<le> pow2 e" using pow2_pos [of e] by simp
  have "pow2 e * pow2 52 = pow2 (ilog2 x)"
    using pow2_add [of e 52] by (simp add: e_def)
  then have pe_le: "pow2 e * 2 ^ 52 \<le> x" using il(1) by (simp add: pow2_52)
  have "\<bar>v - x\<bar> = \<bar>of_int (round_half_even (x / pow2 e)) - x / pow2 e\<bar> * pow2 e"
  proof -
    have "v - x = (of_int (round_half_even (x / pow2 e)) - x / pow2 e) * pow2 e"
      using ne by (simp add: v_def algebra_simps)
    then show ?thesis using ge0 by (simp add: abs_mult)
  qed
  also have "\<dots> \<le> 1 / 2 * pow2 e"
    by (rule mult_right_mono [OF round_half_even_error ge0])
  also have "\<dots> \<le> x / 2 ^ 53"
    using pe_le by simp
  finally show err: "\<bar>v - x\<bar> \<le> x / 2 ^ 53" .
  have "x / 2 ^ 53 \<le> x" using pos by (simp add: field_simps)
  with err have "v \<le> x + x" by linarith
  also have "\<dots> < pow2 1023 + pow2 1023"
    by (rule add_strict_mono [OF hi hi])
  also have "\<dots> = pow2 1024"
    using pow2_add [of 1023 1] by simp
  finally have "v < 2 ^ 1024" by (simp only: pow2_1024)
  then have novf: "\<not> 2 ^ 1024 \<le> v" by (simp only: not_le)
  from pos have xne: "x \<noteq> 0" by simp
  show "to_double x = Finite v"
    by (simp only: to_double_def if_not_P [OF xne] e Let_def v_def [symmetric] if_not_P [OF novf])
qed

text \<open>Evaluating \<open>to_double\<close> at a number whose exponent is known.\<close>

lemma to_double_eval:
  assumes "pow2 k \<le> x" and "x < pow2 (k + 1)" and "- 1022 \<le> k" and "k \<le> 1022"
    and "round_half_even (x / pow2 (k - 52)) = m"
  shows "to_double x = Finite (of_int m * pow2 (k - 52))"
proof -
  have "pow2 (- 1022) \<le> x"
    using pow2_mono [OF assms(3)] assms(1) by linarith
  moreover have "x < pow2 1023"
  proof -
    from assms(4) have "k + 1 \<le> 1023" by simp
    from pow2_mono [OF this] assms(2) show ?thesis by linarith
  qed
  ultimately show ?thesis
    using to_double_normal(1) [of x] by (simp add: ilog2_unique [OF assms(1,2)] assms(5))
qed

lemma round_half_even_nearest:
  assumes "of_int m - 1 / 2 < y" and "y < of_int m + 1 / 2"
  shows "round_half_even y = m"
proof -
  have "\<lfloor>y\<rfloor> = m \<or> \<lfloor>y\<rfloor> = m - 1"
    using assms by linarith
  then show ?thesis
  proof
    assume f: "\<lfloor>y\<rfloor> = m"
    with assms show ?thesis
      by (simp add: round_half_even_def Let_def)
  next
    assume f: "\<lfloor>y\<rfloor> = m - 1"
    with assms show ?thesis
      by (simp add: round_half_even_def Let_def)
  qed
qed

lemma to_double_nearest:
  assumes "pow2 k \<le> x" and "x < pow2 (k + 1)" and "- 1022 \<le> k" and "k \<le> 1022"
    and "of_int m - 1 / 2 < x / pow2 (k - 52)" and "x / pow2 (k - 52) < of_int m + 1 / 2"
  shows "to_double x = Finite (of_int m * pow2 (k - 52))"
  by (rule to_double_eval [OF assms(1-4) round_half_even_nearest [OF assms(5,6)]])

lemma to_double_1: "to_double 1 = Finite 1"
  using to_double_nearest [of 0 1 "2 ^ 52"]
  by (simp add: pow2_def)

lemma to_double_100: "to_double 100 = Finite 100"
  using to_double_nearest [of 6 100 "100 * 2 ^ 46"]
  by (simp add: pow2_def)

lemma to_double_7_25: "to_double (7 / 25) = Finite (5044031582654956 / 2 ^ 54)"
  using to_double_nearest [of "- 2" "7 / 25" 5044031582654956]
  by (simp add: pow2_def)

lemma to_double_28: "to_double (5044031582654956 / 2 ^ 54 * 100) = Finite (7881299347898369 / 2 ^ 48)"
  using to_double_nearest [of 4 "5044031582654956 / 2 ^ 54 * 100" 7881299347898369]
  by (simp add: pow2_def)

lemma to_double_0 [simp]: "to_double 0 = Finite 0"
  by (simp add: to_double_def)

lemma pow2_neg53: "pow2 (- 53) = 1 / 2 ^ 53"
  by (simp add: pow2_def)

lemma pow2_8: "pow2 8 = 256"
  by (simp add: pow2_def)

lemma percentage_rounding:
  assumes t: "0 < t" and ct: "c \<le> t" and t53: "t \<le> 2 ^ 53"
  shows "\<exists>r. js_mul (js_div c t) 100 = Finite r \<and>
           \<bar>r - 100 * of_nat c / of_nat t\<bar> \<le>
             100 * of_nat c / of_nat t * (1 / 2 ^ 52 + 1 / 2 ^ 106)"
proof (cases "c = 0")
  case True
  with t show ?thesis by (simp add: js_div_def js_mul_def)
next
  case False
  define x :: rat where "x = of_nat c / of_nat t"
  have tpos: "(0::rat) < of_nat t" using t by simp
  have cpos: "(1::rat) \<le> of_nat c" using False by (simp add: Suc_le_eq)
  have tle: "(of_nat t :: rat) \<le> 2 ^ 53"
  proof -
    from t53 have "(of_nat t :: rat) \<le> of_nat (2 ^ 53)" by (simp only: of_nat_le_iff)
    then show ?thesis by simp
  qed
  have xle: "x \<le> 1" using ct tpos by (simp add: x_def)
  have xge: "1 / 2 ^ 53 \<le> x"
  proof -
    have "1 / 2 ^ 53 \<le> 1 / (of_nat t :: rat)"
      using tle tpos by (simp add: frac_le)
    also have "\<dots> \<le> x"
      using cpos tpos by (simp add: x_def divide_right_mono)
    finally show ?thesis .
  qed
  have m1: "pow2 (- 1022) \<le> pow2 (- 53)" by (rule pow2_mono) simp
  have m2: "pow2 8 \<le> pow2 1023" by (rule pow2_mono) simp
  have lo1: "pow2 (- 1022) \<le> x" using m1 xge by (simp add: pow2_neg53)
  have hi1: "x < pow2 1023" using m2 xle by (simp add: pow2_8)
  from to_double_normal [OF lo1 hi1] obtain y where
    y: "to_double x = Finite y" and ey: "\<bar>y - x\<bar> \<le> x / 2 ^ 53"
    by blast
  have xpos: "0 < x" using xge by (rule less_le_trans [rotated]) simp
  have half: "x / 2 ^ 53 \<le> x / 2" using xpos by (simp add: frac_le)
  have ylo: "x / 2 \<le> y" using ey half by linarith
  have yhi: "y \<le> 2 * x" using ey half xpos by linarith
  have lo2: "pow2 (- 1022) \<le> y * 100" using lo1 ylo xpos by linarith
  have hi2: "y * 100 < pow2 1023" using m2 yhi xle by (simp add: pow2_8)
  from to_double_normal [OF lo2 hi2] obtain r where
    r: "to_double (y * 100) = Finite r" and er: "\<bar>r - y * 100\<bar> \<le> y * 100 / 2 ^ 53"
    by blast
  have "js_mul (js_div c t) 100 = Finite r"
    using t y r by (simp add: js_div_def js_mul_def x_def)
  moreover have "\<bar>r - 100 * x\<bar> \<le> 100 * x * (1 / 2 ^ 52 + 1 / 2 ^ 106)"
  proof -
    have "r - 100 * x = (r - y * 100) + 100 * (y - x)" by (simp add: algebra_simps)
    then have "\<bar>r - 100 * x\<bar> \<le> \<bar>r - y * 100\<bar> + \<bar>100 * (y - x)\<bar>"
      by (simp only: abs_triangle_ineq)
    also have "\<dots> = \<bar>r - y * 100\<bar> + 100 * \<bar>y - x\<bar>"
      by (simp only: abs_mult abs_numeral)
    finally have "\<bar>r - 100 * x\<bar> \<le> \<bar>r - y * 100\<bar> + 100 * \<bar>y - x\<bar>" .
    also have "\<dots> \<le> y * 100 / 2 ^ 53 + 100 * (x / 2 ^ 53)"
      using er ey by (intro add_mono mult_left_mono) simp_all
    also have "\<dots> \<le> (x + x / 2 ^ 53) * 100 / 2 ^ 53 + 100 * (x / 2 ^ 53)"
    proof -
      have "y \<le> x + x / 2 ^ 53" using ey by linarith
      then show ?thesis by (simp add: divide_right_mono)
    qed
    also have "\<dots> = 100 * x * (1 / 2 ^ 52 + 1 / 2 ^ 106)"
      by (simp add: field_simps)
    finally show ?thesis .
  qed
  ultimately show ?thesis by (auto simp: x_def)
qed

lemma percentage_full:
  assumes "0 < t"
  shows "js_mul (js_div t t) 100 = Finite 100"
  using assms by (simp add: js_div_def js_mul_def to_double_1 to_double_100)

lemma percentage_7_25: "percentage (counts 7 25) = Finite (7881299347898369 / 2 ^ 48)"
  using to_double_7_25 to_double_28
  by (simp add: percentage_def counts_def js_div_def js_mul_def)

subsection \<open>Splitting, trimming and searching strings\<close>

lemma split_on_not_Nil [simp]: "split_on sep xs \<noteq> []"
  by (induction xs) (auto split: list.splits)

lemma split_on_pieces: "piece \<in> set (split_on sep xs) \<Longrightarrow> set piece \<subseteq> set xs"
proof (induction xs arbitrary: piece)
  case Nil
  then show ?case by simp
next
  case (Cons c cs)
  show ?case
  proof (cases "c = sep")
    case True
    with Cons show ?thesis by auto
  next
    case False
    obtain p ps where sp: "split_on sep cs = p # ps"
      by (cases "split_on sep cs") simp_all
    with False Cons.prems have "piece = c # p \<or> piece \<in> set ps" by simp
    then show ?thesis
    proof
      assume "piece = c # p"
      moreover from Cons.IH [of p] sp have "set p \<subseteq> set cs" by simp
      ultimately show ?thesis by auto
    next
      assume "piece \<in> set ps"
      with Cons.IH [of piece] sp show ?thesis by auto
    qed
  qed
qed

lemma trim_eq_Nil_iff: "trim str = [] \<longleftrightarrow> (\<forall>c \<in> set str. is_whitespace c)"
proof
  assume "trim str = []"
  then have "\<forall>c \<in> set (dropWhile is_whitespace str). is_whitespace c"
    by (simp add: trim_def dropWhile_eq_Nil_conv)
  then have "dropWhile is_whitespace str = []"
    using hd_dropWhile [of is_whitespace str] hd_in_set [of "dropWhile is_whitespace str"]
    by blast
  then show "\<forall>c \<in> set str. is_whitespace c"
    by (simp add: dropWhile_eq_Nil_conv)
next
  assume "\<forall>c \<in> set str. is_whitespace c"
  then show "trim str = []"
    by (auto simp: trim_def dest: set_dropWhileD)
qed

lemma getJobUrls_blank:
  assumes "\<forall>c \<in> set text. is_whitespace c"
  shows "getJobUrls text = []"
proof -
  have "trim piece = []" if "piece \<in> set (split_on 0x0A text)" for piece
    using split_on_pieces [OF that] assms by (auto simp: trim_eq_Nil_iff)
  then show ?thesis
    by (auto simp: getJobUrls_def filter_empty_conv)
qed

lemma startsWith_iff: "startsWith str q \<longleftrightarrow> (\<exists>post. str = q @ post)"
  by (induction str q rule: startsWith.induct) auto

lemma str_includes_iff: "str_includes str q \<longleftrightarrow> (\<exists>pre post. str = pre @ q @ post)"
proof (induction str)
  case Nil
  show ?case by auto
next
  case (Cons c cs)
  show ?case
  proof
    assume "str_includes (c # cs) q"
    then consider "startsWith (c # cs) q" | "str_includes cs q" by auto
    then show "\<exists>pre post. c # cs = pre @ q @ post"
    proof cases
      case 1
      then obtain post where "c # cs = q @ post" by (auto simp: startsWith_iff)
      then have "c # cs = [] @ q @ post" by simp
      then show ?thesis by blast
    next
      case 2
      with Cons.IH obtain pre post where "cs = pre @ q @ post" by blast
      then have "c # cs = (c # pre) @ q @ post" by simp
      then show ?thesis by blast
    qed
  next
    assume "\<exists>pre post. c # cs = pre @ q @ post"
    then obtain pre post where e: "c # cs = pre @ q @ post" by blast
    show "str_includes (c # cs) q"
    proof (cases pre)
      case Nil
      with e have "startsWith (c # cs) q" by (auto simp: startsWith_iff)
      then show ?thesis by simp
    next
      case (Cons p pre')
      with e have "cs = pre' @ q @ post" by simp
      with Cons.IH have "str_includes cs q" by blast
      then show ?thesis by simp
    qed
  qed
qed

lemma grid_displayJobs [simp]: "grid (displayJobs jobs s) = jobs"
  by (simp add: displayJobs_def)

lemma job_matches_total:
  assumes "job_title j \<noteq> None" and "company_name j \<noteq> None"
    and "toLowerCase [] = []" and "toLowerCase query \<noteq> []"
  shows "job_matches toLowerCase query j = Inr (matches_query toLowerCase query j)"
  using assms
  by (auto simp: job_matches_def matches_query_def contains_ci_def split: option.splits)

lemma filter_jobs_total:
  assumes "\<forall>j \<in> set jobs. job_title j \<noteq> None \<and> company_name j \<noteq> None"
    and "toLowerCase [] = []" and "toLowerCase query \<noteq> []"
  shows "filter_jobs toLowerCase query jobs = Inr (filter (matches_query toLowerCase query) jobs)"
  using assms(1)
proof (induction jobs)
  case Nil
  show ?case by simp
next
  case (Cons j jobs)
  then have "job_matches toLowerCase query j = Inr (matches_query toLowerCase query j)"
    using job_matches_total [OF _ _ assms(2,3)] by simp
  with Cons show ?case by simp
qed

lemma ascii_lower_Nil_iff [simp]: "ascii_lower str = [] \<longleftrightarrow> str = []"
  by (simp add: ascii_lower_def)

lemma matches_examples:
  "matches_query ascii_lower (js ''ENG'') engineer_job"
  "\<not> matches_query ascii_lower (js ''ENG'') designer_job"
  "\<not> matches_query ascii_lower (js ''ENG'') analyst_job"
  by (simp_all add: matches_query_def contains_ci_def engineer_job_def designer_job_def
        analyst_job_def ascii_lower_def js_def)

section \<open>The claims\<close>

text \<open>
  C1. A run of \<^verbatim>\<open>checkProgress\<close> sets the timer for the next run if and only if its fetch
  succeeded with the status \<^verbatim>\<open>running\<close>, and the delay is then 2000 ms. A chain whose
  earlier runs all met \<^verbatim>\<open>running\<close> and whose next run meets anything else ends there:
  whatever outcomes would follow, the result is the same, and the chain has sent one poll
  per run.
\<close>

theorem poll_continues_iff_running:
  "fst (checkProgress outcome jo s) =
     (if fetched_status outcome = Some (js ''running'') then Some 2000 else None) \<and>
   ((\<forall>earlier \<in> set pre. fetched_status earlier = Some (js ''running'')) \<and>
    fetched_status outcome \<noteq> Some (js ''running'') \<and> truthy (currentSession s) \<longrightarrow>
      monitorScrapingProgress (pre @ outcome # post) jo s =
        monitorScrapingProgress (pre @ [outcome]) jo s \<and>
      polls (monitorScrapingProgress (pre @ outcome # post) jo s) = polls s + length pre + 1)"
proof (intro conjI impI)
  show "fst (checkProgress outcome jo s) =
     (if fetched_status outcome = Some (js ''running'') then Some 2000 else None)"
  proof (cases "fetched_status outcome = Some (js ''running'')")
    case True
    from settle_running [OF True, of jo "checkProgress_send s"] show ?thesis
      by (auto simp: checkProgress_def True)
  next
    case False
    from settle_not_running [OF False, of jo "checkProgress_send s"] show ?thesis
      by (simp add: checkProgress_def False)
  qed
next
  assume h: "(\<forall>earlier \<in> set pre. fetched_status earlier = Some (js ''running'')) \<and>
    fetched_status outcome \<noteq> Some (js ''running'') \<and> truthy (currentSession s)"
  then have pre: "\<forall>earlier \<in> set pre. fetched_status earlier = Some (js ''running'')"
    and out: "fetched_status outcome \<noteq> Some (js ''running'')"
    and sess: "truthy (currentSession s)" by simp_all
  let ?s0 = "running_polls pre (checkProgress_send s)"
  from terminal_requests [OF out, of jo ?s0] obtain s1 where
    s1: "checkProgress_settle outcome jo ?s0 = (None, s1)"
        "status_request s1 = status_request ?s0"
        "requests s1 = requests ?s0 @
           (if fetched_status outcome = Some (js ''completed'') then [jobs_request ?s0] else [])"
    by blast
  have chain: "poll_chain (pre @ outcome # rest) jo (checkProgress_send s) = s1" for rest
    by (simp add: poll_chain_running [OF pre] s1)
  show "monitorScrapingProgress (pre @ outcome # post) jo s =
        monitorScrapingProgress (pre @ [outcome]) jo s"
    by (simp add: monitorScrapingProgress_def sess chain)
  have fr: "requests ?s0 = requests s @ replicate (Suc (length pre)) (status_request s)"
      "status_request ?s0 = status_request s"
    using running_polls_frame [OF pre, of "checkProgress_send s"]
    by (simp_all add: replicate_app_Cons_same)
  have jr: "jobs_request ?s0 = jobs_request s"
    using running_polls_frame [OF pre, of "checkProgress_send s"]
    by (simp add: jobs_request_def)
  have eq: "monitorScrapingProgress (pre @ outcome # post) jo s = s1"
    by (simp add: monitorScrapingProgress_def sess chain)
  have "polls s1 = polls s + length pre + 1"
    by (simp add: polls_def s1 fr jr)
  with eq show "polls (monitorScrapingProgress (pre @ outcome # post) jo s) = polls s + length pre + 1"
    by simp
qed

theorem poll_continues_iff_running_witness:
  "(fetched_status (resolved (snapshot (js ''running''))) = Some (js ''running'') \<and>
    fetched_status (resolved (snapshot (js ''failed''))) \<noteq> Some (js ''running'') \<and>
    truthy (currentSession active_app)) \<and>
   fst (checkProgress (resolved (snapshot (js ''failed''))) (resolved []) active_app) =
     (if fetched_status (resolved (snapshot (js ''failed''))) = Some (js ''running'')
      then Some 2000 else None) \<and>
   monitorScrapingProgress
     ([resolved (snapshot (js ''running''))] @ resolved (snapshot (js ''failed'')) #
        [resolved (snapshot (js ''running''))]) (resolved []) active_app =
   monitorScrapingProgress
     ([resolved (snapshot (js ''running''))] @ [resolved (snapshot (js ''failed''))])
     (resolved []) active_app \<and>
   polls (monitorScrapingProgress
            ([resolved (snapshot (js ''running''))] @ resolved (snapshot (js ''failed'')) #
               [resolved (snapshot (js ''running''))]) (resolved []) active_app) =
     polls active_app + length [resolved (snapshot (js ''running''))] + 1"
proof -
  have h: "(\<forall>earlier \<in> set [resolved (snapshot (js ''running''))].
      fetched_status earlier = Some (js ''running'')) \<and>
    fetched_status (resolved (snapshot (js ''failed''))) \<noteq> Some (js ''running'') \<and>
    truthy (currentSession active_app)"
    by simp
  have h': "fetched_status (resolved (snapshot (js ''running''))) = Some (js ''running'') \<and>
    fetched_status (resolved (snapshot (js ''failed''))) \<noteq> Some (js ''running'') \<and>
    truthy (currentSession active_app)"
    by simp
  note c = poll_continues_iff_running [of "resolved (snapshot (js ''failed''))" "resolved []"
      active_app "[resolved (snapshot (js ''running''))]" "[resolved (snapshot (js ''running''))]"]
  from c have c1: "fst (checkProgress (resolved (snapshot (js ''failed''))) (resolved []) active_app) =
     (if fetched_status (resolved (snapshot (js ''failed''))) = Some (js ''running'')
      then Some 2000 else None)"
    by (rule conjunct1)
  from c [THEN conjunct2, THEN mp, OF h] h' c1 show ?thesis
    by blast
qed

text \<open>
  C2. A run that fetches the status \<^verbatim>\<open>completed\<close> sets no timer, hides the progress
  section, sends the request that refreshes the job listing and shows the success
  notification; a jobs response that arrives replaces the stored and the displayed jobs, and a
  failed jobs request adds the notification of \<^verbatim>\<open>apiCall\<close> after the success one. With
  the statuses running, running, completed the monitor sends exactly three polls, then the
  jobs request.
\<close>

theorem completed_poll_refreshes_jobs:
  "(fetched_status outcome = Some (js ''completed'') \<longrightarrow>
      (let (timer, s1) = checkProgress outcome jo s in
         timer = None \<and> progress_hidden s1 \<and>
         requests s1 = requests s @ [status_request s, jobs_request s] \<and>
         notifications s1 = notifications s @
           (js ''Scraping completed successfully'', js ''success'') #
           (case fetch_result jo of Inl m \<Rightarrow> [(js ''API call failed: '' @ m, js ''error'')]
            | Inr jobs \<Rightarrow> []) \<and>
         (\<forall>jobs. fetch_result jo = Inr jobs \<longrightarrow> currentJobs s1 = jobs \<and> grid s1 = jobs))) \<and>
   (truthy (currentSession s) \<and> fetched_status r1 = Some (js ''running'') \<and>
    fetched_status r2 = Some (js ''running'') \<and> fetched_status r3 = Some (js ''completed'') \<longrightarrow>
      (let s3 = monitorScrapingProgress [r1, r2, r3] jo s in
         polls s3 = polls s + 3 \<and>
         requests s3 = requests s @
           [status_request s, status_request s, status_request s, jobs_request s] \<and>
         progress_hidden s3 \<and>
         notifications s3 = notifications s @
           (js ''Scraping completed successfully'', js ''success'') #
           (case fetch_result jo of Inl m \<Rightarrow> [(js ''API call failed: '' @ m, js ''error'')]
            | Inr jobs \<Rightarrow> []) \<and>
         (\<forall>jobs. fetch_result jo = Inr jobs \<longrightarrow> currentJobs s3 = jobs \<and> grid s3 = jobs)))"
proof (intro conjI impI)
  assume c: "fetched_status outcome = Some (js ''completed'')"
  from settle_completed [OF c, of jo "checkProgress_send s"] obtain st where
    st: "checkProgress outcome jo s =
       (None, loadJobs_settle jo
                (showNotification (js ''Scraping completed successfully'') (js ''success'')
                   (loadJobs_send (hideProgressSection (updateProgress st (checkProgress_send s))))))"
    by (auto simp: checkProgress_def)
  show "let (timer, s1) = checkProgress outcome jo s in
         timer = None \<and> progress_hidden s1 \<and>
         requests s1 = requests s @ [status_request s, jobs_request s] \<and>
         notifications s1 = notifications s @
           (js ''Scraping completed successfully'', js ''success'') #
           (case fetch_result jo of Inl m \<Rightarrow> [(js ''API call failed: '' @ m, js ''error'')]
            | Inr jobs \<Rightarrow> []) \<and>
         (\<forall>jobs. fetch_result jo = Inr jobs \<longrightarrow> currentJobs s1 = jobs \<and> grid s1 = jobs)"
    by (simp add: st loadJobs_settle_notifications loadJobs_settle_jobs)
next
  assume h: "truthy (currentSession s) \<and> fetched_status r1 = Some (js ''running'') \<and>
    fetched_status r2 = Some (js ''running'') \<and> fetched_status r3 = Some (js ''completed'')"
  then have sess: "truthy (currentSession s)"
    and pre: "\<forall>earlier \<in> set [r1, r2]. fetched_status earlier = Some (js ''running'')"
    and c: "fetched_status r3 = Some (js ''completed'')" by simp_all
  let ?s0 = "running_polls [r1, r2] (checkProgress_send s)"
  from settle_completed [OF c, of jo ?s0] obtain st where
    st: "checkProgress_settle r3 jo ?s0 =
       (None, loadJobs_settle jo
                (showNotification (js ''Scraping completed successfully'') (js ''success'')
                   (loadJobs_send (hideProgressSection (updateProgress st ?s0)))))"
    by auto
  have eq: "monitorScrapingProgress [r1, r2, r3] jo s = snd (checkProgress_settle r3 jo ?s0)"
    using monitor_chain [OF sess pre, of r3 jo "[]"] by (simp add: st)
  note fr = running_polls_frame [OF pre, of "checkProgress_send s"]
  have jr: "jobs_request ?s0 = jobs_request s"
    using fr by (simp add: jobs_request_def)
  have rq: "requests (monitorScrapingProgress [r1, r2, r3] jo s) = requests s @
           [status_request s, status_request s, status_request s, jobs_request s]"
    unfolding eq st using fr jr by simp
  have sr: "status_request (monitorScrapingProgress [r1, r2, r3] jo s) = status_request s"
    unfolding eq st using fr by simp
  have pl: "polls (monitorScrapingProgress [r1, r2, r3] jo s) = polls s + 3"
    using polls_append [OF sr rq] by simp
  have hid: "progress_hidden (monitorScrapingProgress [r1, r2, r3] jo s)"
    unfolding eq st by simp
  have nt: "notifications (monitorScrapingProgress [r1, r2, r3] jo s) = notifications s @
           (js ''Scraping completed successfully'', js ''success'') #
           (case fetch_result jo of Inl m \<Rightarrow> [(js ''API call failed: '' @ m, js ''error'')]
            | Inr jobs \<Rightarrow> [])"
    unfolding eq st using fr by (simp add: loadJobs_settle_notifications)
  have jb: "\<forall>jobs. fetch_result jo = Inr jobs \<longrightarrow>
      currentJobs (monitorScrapingProgress [r1, r2, r3] jo s) = jobs \<and>
      grid (monitorScrapingProgress [r1, r2, r3] jo s) = jobs"
    unfolding eq st by (simp add: loadJobs_settle_jobs)
  show "let s3 = monitorScrapingProgress [r1, r2, r3] jo s in
         polls s3 = polls s + 3 \<and>
         requests s3 = requests s @
           [status_request s, status_request s, status_request s, jobs_request s] \<and>
         progress_hidden s3 \<and>
         notifications s3 = notifications s @
           (js ''Scraping completed successfully'', js ''success'') #
           (case fetch_result jo of Inl m \<Rightarrow> [(js ''API call failed: '' @ m, js ''error'')]
            | Inr jobs \<Rightarrow> []) \<and>
         (\<forall>jobs. fetch_result jo = Inr jobs \<longrightarrow> currentJobs s3 = jobs \<and> grid s3 = jobs)"
    unfolding Let_def using pl rq hid nt jb by blast
qed

theorem completed_poll_refreshes_jobs_witness:
  "fetched_status (resolved (snapshot (js ''completed''))) = Some (js ''completed'') \<and>
   truthy (currentSession active_app) \<and>
   fetched_status (resolved (snapshot (js ''running''))) = Some (js ''running'') \<and>
   (let s3 = monitorScrapingProgress
        [resolved (snapshot (js ''running'')), resolved (snapshot (js ''running'')),
         resolved (snapshot (js ''completed''))] (resolved []) active_app
    in polls s3 = polls active_app + 3 \<and> progress_hidden s3 \<and>
       notifications s3 = notifications active_app @
          [(js ''Scraping completed successfully'', js ''success'')] \<and>
       currentJobs s3 = [] \<and> grid s3 = []) \<and>
   fst (checkProgress (resolved (snapshot (js ''completed''))) (resolved []) active_app) = None"
  using completed_poll_refreshes_jobs [of "resolved (snapshot (js ''completed''))" "resolved []"
      active_app "resolved (snapshot (js ''running''))" "resolved (snapshot (js ''running''))"
      "resolved (snapshot (js ''completed''))"]
  by (simp add: Let_def split: prod.splits)

text \<open>
  C3. A run that fetches a status other than \<^verbatim>\<open>running\<close> and \<^verbatim>\<open>completed\<close> sets no
  timer, hides the progress section and shows the failure notification; it sends no jobs
  request and leaves the stored and the displayed jobs alone, and two such statuses on
  otherwise equal snapshots give the same result. With the statuses running, failed the
  monitor sends exactly two polls.
\<close>

theorem failed_poll_reports_failure:
  "(fetch_result outcome = Inr st \<and> status st \<noteq> js ''running'' \<and>
    status st \<noteq> js ''completed'' \<longrightarrow>
      (let (timer, s1) = checkProgress outcome jo s in
         timer = None \<and> progress_hidden s1 \<and>
         requests s1 = requests s @ [status_request s] \<and>
         notifications s1 = notifications s @ [(js ''Scraping failed'', js ''error'')] \<and>
         currentJobs s1 = currentJobs s \<and> grid s1 = grid s) \<and>
      (\<forall>other outcome' jo'.
         other \<noteq> js ''running'' \<and> other \<noteq> js ''completed'' \<and>
         fetch_result outcome' = Inr (st\<lparr>status := other\<rparr>) \<longrightarrow>
           checkProgress outcome' jo' s = checkProgress outcome jo s)) \<and>
   (truthy (currentSession s) \<and> fetched_status r1 = Some (js ''running'') \<and>
    fetched_status r2 = Some (js ''failed'') \<longrightarrow>
      (let s2 = monitorScrapingProgress [r1, r2] jo s in
         polls s2 = polls s + 2 \<and>
         requests s2 = requests s @ [status_request s, status_request s] \<and>
         progress_hidden s2 \<and>
         notifications s2 = notifications s @ [(js ''Scraping failed'', js ''error'')] \<and>
         currentJobs s2 = currentJobs s \<and> grid s2 = grid s))"
proof (intro conjI impI allI)
  assume h: "fetch_result outcome = Inr st \<and> status st \<noteq> js ''running'' \<and>
    status st \<noteq> js ''completed''"
  then have st: "checkProgress outcome jo s =
     (None, showNotification (js ''Scraping failed'') (js ''error'')
              (hideProgressSection (updateProgress st (checkProgress_send s))))"
    by (simp add: checkProgress_def settle_failed)
  show "let (timer, s1) = checkProgress outcome jo s in
         timer = None \<and> progress_hidden s1 \<and>
         requests s1 = requests s @ [status_request s] \<and>
         notifications s1 = notifications s @ [(js ''Scraping failed'', js ''error'')] \<and>
         currentJobs s1 = currentJobs s \<and> grid s1 = grid s"
    by (simp add: st)
  fix other outcome' jo'
  assume o: "other \<noteq> js ''running'' \<and> other \<noteq> js ''completed'' \<and>
         fetch_result outcome' = Inr (st\<lparr>status := other\<rparr>)"
  then have "checkProgress outcome' jo' s =
     (None, showNotification (js ''Scraping failed'') (js ''error'')
              (hideProgressSection (updateProgress (st\<lparr>status := other\<rparr>) (checkProgress_send s))))"
    by (simp add: checkProgress_def settle_failed)
  moreover have "updateProgress (st\<lparr>status := other\<rparr>) = updateProgress st"
    by (rule ext) (simp add: updateProgress_def percentage_def)
  ultimately show "checkProgress outcome' jo' s = checkProgress outcome jo s"
    by (simp add: st)
next
  assume h: "truthy (currentSession s) \<and> fetched_status r1 = Some (js ''running'') \<and>
    fetched_status r2 = Some (js ''failed'')"
  then have sess: "truthy (currentSession s)"
    and pre: "\<forall>earlier \<in> set [r1]. fetched_status earlier = Some (js ''running'')"
    and f: "fetched_status r2 = Some (js ''failed'')" by simp_all
  let ?s0 = "running_polls [r1] (checkProgress_send s)"
  from f obtain st where r2: "fetch_result r2 = Inr st" and "status st = js ''failed''"
    by (auto simp: fetched_status_def split: sum.splits)
  then have st: "checkProgress_settle r2 jo ?s0 =
       (None, showNotification (js ''Scraping failed'') (js ''error'')
                (hideProgressSection (updateProgress st ?s0)))"
    by (simp add: settle_failed)
  have eq: "monitorScrapingProgress [r1, r2] jo s = snd (checkProgress_settle r2 jo ?s0)"
    using monitor_chain [OF sess pre, of r2 jo "[]"] by (simp add: st)
  note fr = running_polls_frame [OF pre, of "checkProgress_send s"]
  have rq: "requests (monitorScrapingProgress [r1, r2] jo s) =
      requests s @ [status_request s, status_request s]"
    unfolding eq st using fr by simp
  have sr: "status_request (monitorScrapingProgress [r1, r2] jo s) = status_request s"
    unfolding eq st using fr by simp
  have pl: "polls (monitorScrapingProgress [r1, r2] jo s) = polls s + 2"
    using polls_append [OF sr rq] by simp
  have rest: "progress_hidden (monitorScrapingProgress [r1, r2] jo s)"
    "notifications (monitorScrapingProgress [r1, r2] jo s) =
       notifications s @ [(js ''Scraping failed'', js ''error'')]"
    "currentJobs (monitorScrapingProgress [r1, r2] jo s) = currentJobs s"
    "grid (monitorScrapingProgress [r1, r2] jo s) = grid s"
    unfolding eq st using fr by simp_all
  show "let s2 = monitorScrapingProgress [r1, r2] jo s in
         polls s2 = polls s + 2 \<and>
         requests s2 = requests s @ [status_request s, status_request s] \<and>
         progress_hidden s2 \<and>
         notifications s2 = notifications s @ [(js ''Scraping failed'', js ''error'')] \<and>
         currentJobs s2 = currentJobs s \<and> grid s2 = grid s"
    unfolding Let_def using pl rq rest by blast
qed

theorem failed_poll_reports_failure_witness:
  "(fetch_result (resolved (snapshot (js ''failed''))) = Inr (snapshot (js ''failed'')) \<and>
    status (snapshot (js ''failed'')) \<noteq> js ''running'' \<and>
    status (snapshot (js ''failed'')) \<noteq> js ''completed'') \<and>
   (js ''cancelled'' \<noteq> js ''running'' \<and> js ''cancelled'' \<noteq> js ''completed'' \<and>
    fetch_result (resolved (snapshot (js ''cancelled''))) =
      Inr ((snapshot (js ''failed''))\<lparr>status := js ''cancelled''\<rparr>)) \<and>
   (truthy (currentSession active_app) \<and>
    fetched_status (resolved (snapshot (js ''running''))) = Some (js ''running'') \<and>
    fetched_status (resolved (snapshot (js ''failed''))) = Some (js ''failed'')) \<and>
   checkProgress (resolved (snapshot (js ''cancelled''))) (NetworkError []) active_app =
     checkProgress (resolved (snapshot (js ''failed''))) (resolved []) active_app \<and>
   polls (monitorScrapingProgress
            [resolved (snapshot (js ''running'')), resolved (snapshot (js ''failed''))]
            (resolved []) active_app) = polls active_app + 2 \<and>
   notifications (monitorScrapingProgress
            [resolved (snapshot (js ''running'')), resolved (snapshot (js ''failed''))]
            (resolved []) active_app) =
     notifications active_app @ [(js ''Scraping failed'', js ''error'')]"
proof -
  have h1: "fetch_result (resolved (snapshot (js ''failed''))) = Inr (snapshot (js ''failed'')) \<and>
    status (snapshot (js ''failed'')) \<noteq> js ''running'' \<and>
    status (snapshot (js ''failed'')) \<noteq> js ''completed''"
    by (simp add: snapshot_def)
  have h2: "js ''cancelled'' \<noteq> js ''running'' \<and> js ''cancelled'' \<noteq> js ''completed'' \<and>
    fetch_result (resolved (snapshot (js ''cancelled''))) =
      Inr ((snapshot (js ''failed''))\<lparr>status := js ''cancelled''\<rparr>)"
    by (simp add: snapshot_def js_def)
  have h3: "truthy (currentSession active_app) \<and>
    fetched_status (resolved (snapshot (js ''running''))) = Some (js ''running'') \<and>
    fetched_status (resolved (snapshot (js ''failed''))) = Some (js ''failed'')"
    by simp
  from failed_poll_reports_failure [of "resolved (snapshot (js ''failed''))"
      "snapshot (js ''failed'')" "resolved []" active_app "resolved (snapshot (js ''running''))"
      "resolved (snapshot (js ''failed''))"] h1 h2 h3
  show ?thesis
    by (simp only: Let_def) blast
qed

text \<open>
  C4. A run whose fetch fails (the request is rejected, the response has a status outside
  200 to 299, or its body does not decode) sets no timer, hides the progress section and
  leaves the failure notification of \<^verbatim>\<open>apiCall\<close>. A monitor whose first fetch fails has
  sent exactly one poll, whatever outcomes would follow.
\<close>

theorem fetch_failure_ends_chain:
  "fetch_result outcome = Inl m \<longrightarrow>
     (let (timer, s1) = checkProgress outcome jo s in
        timer = None \<and> progress_hidden s1 \<and>
        requests s1 = requests s @ [status_request s] \<and>
        notifications s1 = notifications s @ [(js ''API call failed: '' @ m, js ''error'')]) \<and>
     (truthy (currentSession s) \<longrightarrow>
        monitorScrapingProgress (outcome # post) jo s = snd (checkProgress outcome jo s) \<and>
        polls (monitorScrapingProgress (outcome # post) jo s) = polls s + 1)"
proof (intro impI)
  assume e: "fetch_result outcome = Inl m"
  let ?s1 = "hideProgressSection (console_error (js ''Failed to check progress:'')
              (showNotification (js ''API call failed: '' @ m) (js ''error'')
                 (console_error (js ''API call failed:'') (checkProgress_send s))))"
  have st: "checkProgress outcome jo s = (None, ?s1)"
    by (simp add: checkProgress_def settle_error [OF e])
  have step: "let (timer, s1) = checkProgress outcome jo s in
        timer = None \<and> progress_hidden s1 \<and>
        requests s1 = requests s @ [status_request s] \<and>
        notifications s1 = notifications s @ [(js ''API call failed: '' @ m, js ''error'')]"
    by (simp add: st)
  have chain: "monitorScrapingProgress (outcome # post) jo s = snd (checkProgress outcome jo s) \<and>
        polls (monitorScrapingProgress (outcome # post) jo s) = polls s + 1"
    if sess: "truthy (currentSession s)"
  proof -
    have eq: "monitorScrapingProgress (outcome # post) jo s = ?s1"
      by (simp add: monitorScrapingProgress_def sess settle_error [OF e])
    have "status_request ?s1 = status_request s"
      and "requests ?s1 = requests s @ [status_request s]"
      by simp_all
    from polls_append [OF this] have "polls ?s1 = polls s + 1"
      by simp
    with eq st show ?thesis by simp
  qed
  from step chain show "(let (timer, s1) = checkProgress outcome jo s in
        timer = None \<and> progress_hidden s1 \<and>
        requests s1 = requests s @ [status_request s] \<and>
        notifications s1 = notifications s @ [(js ''API call failed: '' @ m, js ''error'')]) \<and>
     (truthy (currentSession s) \<longrightarrow>
        monitorScrapingProgress (outcome # post) jo s = snd (checkProgress outcome jo s) \<and>
        polls (monitorScrapingProgress (outcome # post) jo s) = polls s + 1)"
    by blast
qed

theorem fetch_failure_ends_chain_witness:
  "fetch_result (HttpResponse 503 (Inr (snapshot (js ''running'')))) =
     Inl (js ''HTTP error! status: 503'') \<and>
   truthy (currentSession active_app) \<and>
   (let (timer, s1) = checkProgress (HttpResponse 503 (Inr (snapshot (js ''running''))))
                        (resolved []) active_app
    in timer = None \<and> progress_hidden s1 \<and>
       requests s1 = requests active_app @ [status_request active_app] \<and>
       notifications s1 = notifications active_app @
         [(js ''API call failed: '' @ js ''HTTP error! status: 503'', js ''error'')]) \<and>
   polls (monitorScrapingProgress
            (HttpResponse 503 (Inr (snapshot (js ''running''))) #
               [resolved (snapshot (js ''running''))]) (resolved []) active_app) =
     polls active_app + 1"
proof -
  have "show_nat 503 = js ''503''"
    by (simp add: js_def digit_def)
  then have h: "fetch_result (HttpResponse 503 (Inr (snapshot (js ''running'')))) =
     Inl (js ''HTTP error! status: 503'')"
    by (simp add: fetch_result_def response_ok_def js_def)
  from fetch_failure_ends_chain [of "HttpResponse 503 (Inr (snapshot (js ''running'')))"
      "js ''HTTP error! status: 503''" "resolved []" active_app
      "[resolved (snapshot (js ''running''))]"] h truthy_active
  show ?thesis by blast
qed

text \<open>
  C5. With \<^verbatim>\<open>total_urls\<close> equal to 0 the percentage that \<^verbatim>\<open>updateProgress\<close> writes is 0.
  The division is not what produces it: dividing by zero would give \<^verbatim>\<open>NaN\<close> or
  \<^verbatim>\<open>Infinity\<close>, never an error and never 0.
\<close>

theorem zero_total_gives_zero:
  "total_urls st = 0 \<longrightarrow>
     percentage st = Finite 0 \<and> progress_bar (updateProgress st s) = Finite 0 \<and>
     (js_mul (js_div (completed st) (total_urls st)) 100 = NaN \<or>
      js_mul (js_div (completed st) (total_urls st)) 100 = PosInfinity)"
  by (simp add: percentage_def updateProgress_def js_div_def js_mul_def)

theorem zero_total_gives_zero_witness:
  "total_urls (counts 0 0) = 0 \<and> total_urls (counts 3 0) = 0 \<and>
   percentage (counts 0 0) = Finite 0 \<and> percentage (counts 3 0) = Finite 0 \<and>
   js_mul (js_div (completed (counts 0 0)) (total_urls (counts 0 0))) 100 = NaN \<and>
   js_mul (js_div (completed (counts 3 0)) (total_urls (counts 3 0))) 100 = PosInfinity"
proof -
  have h: "total_urls (counts 0 0) = 0" "total_urls (counts 3 0) = 0"
    by (simp_all add: counts_def)
  have d: "js_mul (js_div (completed (counts 0 0)) (total_urls (counts 0 0))) 100 = NaN"
    "js_mul (js_div (completed (counts 3 0)) (total_urls (counts 3 0))) 100 = PosInfinity"
    by (simp_all add: counts_def js_div_def js_mul_def)
  from zero_total_gives_zero [of "counts 0 0" initial_app]
    zero_total_gives_zero [of "counts 3 0" initial_app] h d
  show ?thesis by blast
qed

text \<open>
  C6, as amended. With \<^verbatim>\<open>0 < total_urls\<close> and \<^verbatim>\<open>completed \<le> total_urls\<close>, both
  counts at most \<open>2 ^ 53\<close>, the percentage is the double
  \<^verbatim>\<open>(completed / total_urls) * 100\<close>, rounded after the division and after the
  multiplication: a finite number whose distance from \<open>100 * completed / total_urls\<close> is at
  most that value times \<open>2 ^ -52 + 2 ^ -106\<close>. It is exactly 100 when \<^verbatim>\<open>completed\<close>
  equals \<^verbatim>\<open>total_urls\<close> (and exactly 0 when \<^verbatim>\<open>completed\<close> is 0, by the bound).
\<close>

theorem percentage_within_rounding:
  "0 < total_urls st \<and> completed st \<le> total_urls st \<and> total_urls st \<le> 2 ^ 53 \<longrightarrow>
     (\<exists>r. percentage st = Finite r \<and> progress_bar (updateProgress st s) = Finite r \<and>
        \<bar>r - 100 * of_nat (completed st) / of_nat (total_urls st)\<bar> \<le>
          100 * of_nat (completed st) / of_nat (total_urls st) * (1 / 2 ^ 52 + 1 / 2 ^ 106)) \<and>
     (completed st = total_urls st \<longrightarrow> percentage st = Finite 100)"
proof (intro impI conjI)
  assume h: "0 < total_urls st \<and> completed st \<le> total_urls st \<and> total_urls st \<le> 2 ^ 53"
  then have p: "percentage st = js_mul (js_div (completed st) (total_urls st)) 100"
    by (simp add: percentage_def)
  from h percentage_rounding [of "total_urls st" "completed st"]
  show "\<exists>r. percentage st = Finite r \<and> progress_bar (updateProgress st s) = Finite r \<and>
        \<bar>r - 100 * of_nat (completed st) / of_nat (total_urls st)\<bar> \<le>
          100 * of_nat (completed st) / of_nat (total_urls st) * (1 / 2 ^ 52 + 1 / 2 ^ 106)"
    by (auto simp: p updateProgress_def)
  assume "completed st = total_urls st"
  with h percentage_full [of "total_urls st"] show "percentage st = Finite 100"
    by (simp add: p)
qed

theorem percentage_within_rounding_witness:
  "(0 < total_urls (counts 7 25) \<and> completed (counts 7 25) \<le> total_urls (counts 7 25) \<and>
    total_urls (counts 7 25) \<le> 2 ^ 53) \<and>
   percentage (counts 7 25) = Finite (7881299347898369 / 2 ^ 48) \<and>
   \<bar>7881299347898369 / 2 ^ 48 -
      100 * of_nat (completed (counts 7 25)) / of_nat (total_urls (counts 7 25))\<bar> \<le>
     100 * of_nat (completed (counts 7 25)) / of_nat (total_urls (counts 7 25)) *
       (1 / 2 ^ 52 + 1 / 2 ^ 106 :: rat) \<and>
   (0 < total_urls (counts 25 25) \<and> completed (counts 25 25) \<le> total_urls (counts 25 25) \<and>
    total_urls (counts 25 25) \<le> 2 ^ 53) \<and>
   completed (counts 25 25) = total_urls (counts 25 25) \<and>
   percentage (counts 25 25) = Finite 100"
proof -
  have h1: "0 < total_urls (counts 7 25) \<and> completed (counts 7 25) \<le> total_urls (counts 7 25) \<and>
    total_urls (counts 7 25) \<le> 2 ^ 53"
    by (simp add: counts_def)
  have h2: "0 < total_urls (counts 25 25) \<and> completed (counts 25 25) \<le> total_urls (counts 25 25) \<and>
    total_urls (counts 25 25) \<le> 2 ^ 53"
    by (simp add: counts_def)
  have h3: "completed (counts 25 25) = total_urls (counts 25 25)"
    by (simp add: counts_def)
  from percentage_within_rounding [of "counts 7 25" initial_app] h1
  obtain r where r: "percentage (counts 7 25) = Finite r"
    "\<bar>r - 100 * of_nat (completed (counts 7 25)) / of_nat (total_urls (counts 7 25))\<bar> \<le>
     100 * of_nat (completed (counts 7 25)) / of_nat (total_urls (counts 7 25)) *
       (1 / 2 ^ 52 + 1 / 2 ^ 106)"
    by blast
  from r(1) have "r = 7881299347898369 / 2 ^ 48"
    by (simp only: percentage_7_25 jsnum.inject)
  with r have b: "percentage (counts 7 25) = Finite (7881299347898369 / 2 ^ 48)"
    "\<bar>7881299347898369 / 2 ^ 48 -
      100 * of_nat (completed (counts 7 25)) / of_nat (total_urls (counts 7 25))\<bar> \<le>
     100 * of_nat (completed (counts 7 25)) / of_nat (total_urls (counts 7 25)) *
       (1 / 2 ^ 52 + 1 / 2 ^ 106 :: rat)"
    by simp_all
  from percentage_within_rounding [of "counts 25 25" initial_app] h2 h3
  have f: "percentage (counts 25 25) = Finite 100" by blast
  from h1 h2 h3 b f show ?thesis by blast
qed

text \<open>
  C6, as stated, fails: for 7 of 25 URLs the percentage is \<open>7881299347898369 / 2 ^ 48\<close>,
  the double printed as \<^verbatim>\<open>28.000000000000004\<close>, and not \<open>100 * 7 / 25 = 28\<close>.
\<close>

theorem exact_percentage_counterexample:
  "0 < total_urls (counts 7 25) \<and> completed (counts 7 25) \<le> total_urls (counts 7 25) \<and>
   percentage (counts 7 25) = Finite (7881299347898369 / 2 ^ 48) \<and>
   (7881299347898369 / 2 ^ 48 :: rat) \<noteq>
     100 * of_nat (completed (counts 7 25)) / of_nat (total_urls (counts 7 25))"
  using percentage_7_25 by (simp add: counts_def)

text \<open>
  C7, as amended. A failed fetch and a fetched status other than \<^verbatim>\<open>running\<close> and
  \<^verbatim>\<open>completed\<close> both leave one notification of type \<^verbatim>\<open>error\<close>, but with different
  messages: \<^verbatim>\<open>API call failed: \<close> followed by the message of the error for the first,
  \<^verbatim>\<open>Scraping failed\<close> for the second.
\<close>

theorem failure_messages_differ:
  "fetch_result outcome = Inl m \<and> fetch_result outcome' = Inr st \<and>
   status st \<noteq> js ''running'' \<and> status st \<noteq> js ''completed'' \<longrightarrow>
     notifications (snd (checkProgress outcome jo s)) =
       notifications s @ [(js ''API call failed: '' @ m, js ''error'')] \<and>
     notifications (snd (checkProgress outcome' jo s)) =
       notifications s @ [(js ''Scraping failed'', js ''error'')] \<and>
     js ''API call failed: '' @ m \<noteq> js ''Scraping failed''"
proof (intro impI conjI)
  assume h: "fetch_result outcome = Inl m \<and> fetch_result outcome' = Inr st \<and>
   status st \<noteq> js ''running'' \<and> status st \<noteq> js ''completed''"
  then have e: "fetch_result outcome = Inl m" by simp
  show "notifications (snd (checkProgress outcome jo s)) =
       notifications s @ [(js ''API call failed: '' @ m, js ''error'')]"
    by (simp add: checkProgress_def settle_error [OF e])
  from h show "notifications (snd (checkProgress outcome' jo s)) =
       notifications s @ [(js ''Scraping failed'', js ''error'')]"
    by (simp add: checkProgress_def settle_failed)
  show "js ''API call failed: '' @ m \<noteq> js ''Scraping failed''"
    by (simp add: js_def)
qed

theorem failure_messages_differ_witness:
  "(fetch_result (NetworkError (js ''Failed to fetch'') :: ProgressStatus fetch_outcome) = Inl (js ''Failed to fetch'') \<and>
    fetch_result (resolved (snapshot (js ''failed''))) = Inr (snapshot (js ''failed'')) \<and>
    status (snapshot (js ''failed'')) \<noteq> js ''running'' \<and>
    status (snapshot (js ''failed'')) \<noteq> js ''completed'') \<and>
   notifications (snd (checkProgress (NetworkError (js ''Failed to fetch'')) (resolved [])
      active_app)) =
     notifications active_app @ [(js ''API call failed: '' @ js ''Failed to fetch'', js ''error'')] \<and>
   notifications (snd (checkProgress (resolved (snapshot (js ''failed''))) (resolved [])
      active_app)) =
     notifications active_app @ [(js ''Scraping failed'', js ''error'')]"
proof -
  have h: "fetch_result (NetworkError (js ''Failed to fetch'') :: ProgressStatus fetch_outcome) = Inl (js ''Failed to fetch'') \<and>
    fetch_result (resolved (snapshot (js ''failed''))) = Inr (snapshot (js ''failed'')) \<and>
    status (snapshot (js ''failed'')) \<noteq> js ''running'' \<and>
    status (snapshot (js ''failed'')) \<noteq> js ''completed''"
    by (simp add: fetch_result_def snapshot_def resolved_def response_ok_def)
  from failure_messages_differ [of "NetworkError (js ''Failed to fetch'')" "js ''Failed to fetch''"
      "resolved (snapshot (js ''failed''))" "snapshot (js ''failed'')" "resolved []" active_app] h
  show ?thesis by blast
qed

text \<open>
  C7, as stated, fails: on the same state, the message shown for a rejected fetch and the
  message shown for the status \<^verbatim>\<open>failed\<close> are not the same.
\<close>

theorem identical_failure_message_counterexample:
  "map fst (notifications (snd (checkProgress (NetworkError (js ''Failed to fetch''))
      (resolved []) active_app))) = [js ''API call failed: Failed to fetch''] \<and>
   map fst (notifications (snd (checkProgress (resolved (snapshot (js ''failed'')))
      (resolved []) active_app))) = [js ''Scraping failed''] \<and>
   js ''API call failed: Failed to fetch'' \<noteq> js ''Scraping failed''"
proof -
  have e: "fetch_result (NetworkError (js ''Failed to fetch'')) = Inl (js ''Failed to fetch'')"
    by (simp add: fetch_result_def)
  have f: "status (snapshot (js ''failed'')) \<noteq> js ''running''"
    "status (snapshot (js ''failed'')) \<noteq> js ''completed''"
    by (simp_all add: snapshot_def)
  have n: "notifications active_app = []"
    by (simp add: active_app_def initial_app_def)
  have "map fst (notifications (snd (checkProgress (NetworkError (js ''Failed to fetch''))
      (resolved []) active_app))) = [js ''API call failed: Failed to fetch'']"
    by (simp add: checkProgress_def settle_error [OF e] n) (simp add: js_def)
  moreover have "map fst (notifications (snd (checkProgress (resolved (snapshot (js ''failed'')))
      (resolved []) active_app))) = [js ''Scraping failed'']"
    by (simp add: checkProgress_def settle_failed [OF fetch_result_resolved f] n)
  moreover have "js ''API call failed: Failed to fetch'' \<noteq> js ''Scraping failed''"
    by (simp add: js_def)
  ultimately show ?thesis by blast
qed

text \<open>
  C8. With no session stored (\<^verbatim>\<open>currentSession\<close> is \<^verbatim>\<open>null\<close> or the empty string)
  \<^verbatim>\<open>monitorScrapingProgress\<close> returns at once: no request is sent, no timer is set, and
  the state is the one it started from.
\<close>

theorem monitor_without_session_is_noop:
  "currentSession s = None \<or> currentSession s = Some [] \<Longrightarrow>
   monitorScrapingProgress outcomes jo s = s"
  by (auto simp: monitorScrapingProgress_def truthy_def)

theorem monitor_without_session_is_noop_witness:
  "(currentSession initial_app = None \<or> currentSession initial_app = Some []) \<and>
   monitorScrapingProgress [resolved (snapshot (js ''running''))] (resolved []) initial_app =
     initial_app"
proof -
  have h: "currentSession initial_app = None \<or> currentSession initial_app = Some []"
    by (simp add: initial_app_def)
  from h monitor_without_session_is_noop [OF h] show ?thesis by blast
qed

text \<open>
  C9. When the textarea holds nothing but white space and line breaks, \<^verbatim>\<open>getJobUrls\<close>
  returns the empty list and \<^verbatim>\<open>startScraping\<close> only shows the warning: no request is
  sent, no session is stored, no poll starts, whatever the backend would have answered.
\<close>

theorem blank_textarea_starts_nothing:
  "(\<forall>c \<in> set text. is_whitespace c) \<Longrightarrow>
   getJobUrls text = [] \<and>
   startScraping text scrape_outcome outcomes jo s =
     s\<lparr>notifications := notifications s @
         [(js ''Please enter at least one job URL'', js ''warning'')]\<rparr> \<and>
   requests (startScraping text scrape_outcome outcomes jo s) = requests s \<and>
   currentSession (startScraping text scrape_outcome outcomes jo s) = currentSession s"
  by (simp add: getJobUrls_blank startScraping_def showNotification_def)

theorem blank_textarea_starts_nothing_witness:
  "is_whitespace 0x20 \<and> is_whitespace 0x0A \<and> is_whitespace 0x09 \<and>
   getJobUrls [0x20, 0x0A, 0x0A, 0x09, 0x20] = [] \<and>
   startScraping [0x20, 0x0A, 0x0A, 0x09, 0x20] (resolved (Some (js ''s1'')))
       [resolved (snapshot (js ''completed''))] (resolved []) initial_app =
     initial_app\<lparr>notifications := notifications initial_app @
         [(js ''Please enter at least one job URL'', js ''warning'')]\<rparr> \<and>
   requests (startScraping [0x20, 0x0A, 0x0A, 0x09, 0x20] (resolved (Some (js ''s1'')))
       [resolved (snapshot (js ''completed''))] (resolved []) initial_app) = requests initial_app"
proof -
  have ws: "is_whitespace 0x20 \<and> is_whitespace 0x0A \<and> is_whitespace 0x09"
    by (simp add: is_whitespace_def)
  then have h: "\<forall>c \<in> set [0x20, 0x0A, 0x0A, 0x09, 0x20]. is_whitespace c"
    by simp
  from blank_textarea_starts_nothing [OF h, of "resolved (Some (js ''s1''))"
      "[resolved (snapshot (js ''completed''))]" "resolved []" initial_app] ws
  show ?thesis by blast
qed

text \<open>
  C10. When no stored job has a \<^verbatim>\<open>null\<close> title or company name, \<^verbatim>\<open>searchJobs\<close>
  throws nothing; with a query of white space only (or empty) it displays the stored list as
  it is, and with any other query it displays the stored jobs that match, in their order.
\<close>

theorem search_displays_matching_jobs:
  assumes "\<forall>j \<in> set (currentJobs s). job_title j \<noteq> None \<and> company_name j \<noteq> None"
    and "toLowerCase [] = []" and "\<forall>str. toLowerCase str = [] \<longrightarrow> str = []"
  shows "if \<forall>c \<in> set query. is_whitespace c
         then searchJobs toLowerCase query s = Inr (displayJobs (currentJobs s) s) \<and>
              grid (displayJobs (currentJobs s) s) = currentJobs s
         else searchJobs toLowerCase query s =
                Inr (displayJobs (filter (matches_query toLowerCase query) (currentJobs s)) s) \<and>
              grid (displayJobs (filter (matches_query toLowerCase query) (currentJobs s)) s) =
                filter (matches_query toLowerCase query) (currentJobs s)"
proof (cases "\<forall>c \<in> set query. is_whitespace c")
  case True
  then have "trim query = []" by (simp add: trim_eq_Nil_iff)
  then have "searchJobs toLowerCase query s = Inr (displayJobs (currentJobs s) s)"
    by (simp add: searchJobs_def)
  then show ?thesis
    by (subst if_P [OF True]) simp
next
  case False
  then have t: "trim query \<noteq> []" by (simp add: trim_eq_Nil_iff)
  from False have "query \<noteq> []" by auto
  with assms(3) have "toLowerCase query \<noteq> []" by blast
  from filter_jobs_total [OF assms(1,2) this] t
  have "searchJobs toLowerCase query s =
      Inr (displayJobs (filter (matches_query toLowerCase query) (currentJobs s)) s)"
    by (simp add: searchJobs_def)
  then show ?thesis
    by (subst if_not_P [OF False]) simp
qed

theorem search_displays_matching_jobs_witness:
  "job_title engineer_job \<noteq> None \<and> company_name engineer_job \<noteq> None \<and>
   job_title designer_job \<noteq> None \<and> company_name designer_job \<noteq> None \<and>
   job_title analyst_job \<noteq> None \<and> company_name analyst_job \<noteq> None \<and>
   ascii_lower [] = [] \<and>
   searchJobs ascii_lower (js ''ENG'') listing_app = Inr (displayJobs [engineer_job] listing_app) \<and>
   searchJobs ascii_lower (js ''  '') listing_app =
     Inr (displayJobs [engineer_job, designer_job, analyst_job] listing_app)"
proof -
  have h0: "job_title engineer_job \<noteq> None \<and> company_name engineer_job \<noteq> None \<and>
   job_title designer_job \<noteq> None \<and> company_name designer_job \<noteq> None \<and>
   job_title analyst_job \<noteq> None \<and> company_name analyst_job \<noteq> None"
    by (simp add: engineer_job_def designer_job_def analyst_job_def)
  have jobs: "currentJobs listing_app = [engineer_job, designer_job, analyst_job]"
    by (simp add: listing_app_def)
  from h0 have h1: "\<forall>j \<in> set (currentJobs listing_app). job_title j \<noteq> None \<and> company_name j \<noteq> None"
    by (simp add: jobs)
  have h2: "ascii_lower [] = []" by simp
  have h3: "\<forall>str. ascii_lower str = [] \<longrightarrow> str = []" by simp
  have q1: "\<not> (\<forall>c \<in> set (js ''ENG''). is_whitespace c)"
    by (simp add: js_def is_whitespace_def)
  have q2: "\<forall>c \<in> set (js ''  ''). is_whitespace c"
    by (simp add: js_def is_whitespace_def)
  from search_displays_matching_jobs [OF h1 h2 h3, of "js ''ENG''"]
  have r1: "searchJobs ascii_lower (js ''ENG'') listing_app = Inr (displayJobs [engineer_job] listing_app)"
    by (simp only: if_not_P [OF q1] jobs) (simp add: matches_examples)
  from search_displays_matching_jobs [OF h1 h2 h3, of "js ''  ''"]
  have r2: "searchJobs ascii_lower (js ''  '') listing_app =
     Inr (displayJobs [engineer_job, designer_job, analyst_job] listing_app)"
    by (simp only: if_P [OF q2] jobs)
  from h0 h2 r1 r2 show ?thesis by blast
qed

end
